(* ===== verification/Fq_Prelude.thy ===== *)
theory Fq_Prelude
  imports Main "HOL-Library.Word"
begin

text \<open>
  Shared foundations of the development: the names of Go's types, the collections of rewrite
  rules the components feed, the list lemmas about delimiters that all wire formats need, and
  the interface (locale) of an encoder paired with its decoder.

  Go's \<^verbatim>\<open>[]byte\<close> and \<^verbatim>\<open>string\<close> are both sequences of bytes, and both are \<^typ>\<open>string\<close> here:
  an Isabelle \<^typ>\<open>char\<close> is exactly one byte. Fixed-width unsigned integers are words; Go's
  \<^verbatim>\<open>int\<close>, used by the program for lengths, sizes and indices, is \<^typ>\<open>int\<close>.
\<close>

type_synonym bytes = string
type_synonym uint16 = "16 word"
type_synonym uint32 = "32 word"
type_synonym uint64 = "64 word"

named_theorems wire_simps \<open>equations that evaluate the text formats of requests and responses\<close>
named_theorems io_simps \<open>equations that evaluate effectful code step by step\<close>

subsection \<open>Traversing a list with a partial function\<close>

fun mapM :: "('a \<Rightarrow> 'b option) \<Rightarrow> 'a list \<Rightarrow> 'b list option" where
  "mapM f [] = Some []"
| "mapM f (x # xs) =
     (case f x of None \<Rightarrow> None | Some y \<Rightarrow> map_option ((#) y) (mapM f xs))"

lemma mapM_map_Some: "(\<And>x. x \<in> set xs \<Longrightarrow> f (g x) = Some (h x)) \<Longrightarrow> mapM f (map g xs) = Some (map h xs)"
  by (induction xs) auto

lemma mapM_append:
  "mapM f (xs @ ys) =
     (case mapM f xs of None \<Rightarrow> None | Some us \<Rightarrow> map_option ((@) us) (mapM f ys))"
  by (induction xs) (auto split: option.splits simp: option.map_comp comp_def map_option_case)

lemma mapM_length: "mapM f xs = Some ys \<Longrightarrow> length ys = length xs"
  by (induction xs arbitrary: ys) (auto split: option.splits)

lemma mapM_None_iff: "mapM f xs = None \<longleftrightarrow> (\<exists>x \<in> set xs. f x = None)"
  by (induction xs) (auto split: option.splits)

subsection \<open>Sums\<close>

lemma map_sum_eq_Inr:
  "map_sum f g x = Inr y \<longleftrightarrow> (\<exists>z. x = Inr z \<and> y = g z)"
  "Inr y = map_sum f g x \<longleftrightarrow> (\<exists>z. x = Inr z \<and> y = g z)"
  by (cases x; auto)+

subsection \<open>Encoders and decoders\<close>

text \<open>
  The interface between whoever writes a value onto the wire and whoever reads it back: on the
  values the encoder is meant for, the decoder recovers the value.
\<close>

locale codec =
  fixes enc :: "'a \<Rightarrow> 'w"
    and dec :: "'w \<Rightarrow> 'a option"
    and valid :: "'a \<Rightarrow> bool"
  assumes dec_enc: "valid x \<Longrightarrow> dec (enc x) = Some x"
begin

lemma enc_inject:
  assumes "valid x" and "valid y" and "enc x = enc y"
  shows "x = y"
proof -
  have "Some x = dec (enc x)" by (simp only: dec_enc [OF assms(1)])
  also have "\<dots> = Some y" by (simp only: assms(3) dec_enc [OF assms(2)])
  finally show ?thesis by simp
qed

lemma inj_on_enc: "inj_on enc {x. valid x}"
  by (rule inj_onI) (auto intro: enc_inject)

lemma mapM_dec_enc: "(\<And>x. x \<in> set xs \<Longrightarrow> valid x) \<Longrightarrow> mapM dec (map enc xs) = Some xs"
  by (induction xs) (auto simp: dec_enc)

end

subsection \<open>Sums over lists that are updated\<close>

lemma sum_list_map_update:
  fixes f :: "'a \<Rightarrow> 'b :: comm_monoid_add"
  assumes "i < length xs"
  shows "sum_list (map f (xs[i := y])) + f (xs ! i) = sum_list (map f xs) + f y"
  using assms
proof (induction xs arbitrary: i)
  case (Cons x xs)
  show ?case
  proof (cases i)
    case (Suc j)
    with Cons.IH [of j] Cons.prems show ?thesis by (simp add: add.assoc)
  qed (simp add: ac_simps)
qed simp

lemma sum_list_zeros [simp]: "sum_list (replicate n (0 :: 'a :: comm_monoid_add)) = 0"
  by (induction n) simp_all

end
