(* ===== verification/Go_Errors.thy ===== *)
theory Go_Errors
  imports Fq_Prelude
begin

text \<open>
  Go's error values as the client uses them: the sentinel errors of the packages, the
  \<^verbatim>\<open>*ProtocolError\<close> of \<^verbatim>\<open>response.go\<close>, errors of the network stack, and errors made by
  \<^verbatim>\<open>fmt.Errorf\<close>. An \<^verbatim>\<open>Errorf\<close> value keeps its format and its arguments; the arguments of the verb
  \<^verbatim>\<open>%w\<close> are the errors it wraps, so that \<^verbatim>\<open>errors.Is\<close> and \<^verbatim>\<open>errors.As\<close> can walk the tree.
\<close>

datatype sentinel =
    ErrCorruptedResponse | ErrUnknownRespStatus
  | ErrAuthFailed | ErrTLSKeyPairIncomplete | ErrTLSUnknownMinVersion
  | ErrConnPoolClosed | ErrConnClosed | errFrameTooLarge
  | ErrNoShards | ErrNilShardingFunc | ErrShardIndexOutOfRange
  | EOF | ErrUnexpectedEOF | ErrShortWrite | NetErrClosed
  | CtxCanceled | CtxDeadlineExceeded

datatype go_error =
    Sentinel sentinel
  | ProtocolError (Code: uint16) (Message: string)
  | NetError string
  | PlainError string
  | Errorf string "fmt_arg list"
and fmt_arg = W go_error | D int | Q string

text \<open>
  \<^verbatim>\<open>errors.Is\<close> and \<^verbatim>\<open>errors.As\<close> visit an error and the errors it wraps in pre-order, depth first.
\<close>

fun wrapped :: "fmt_arg list \<Rightarrow> go_error list" where
  "wrapped [] = []"
| "wrapped (W e # as) = e # wrapped as"
| "wrapped (D i # as) = wrapped as"
| "wrapped (Q s # as) = wrapped as"

lemma wrapped_size: "e \<in> set (wrapped as) \<Longrightarrow> size e < Suc (size_list size as)"
  by (induction as rule: wrapped.induct) auto

function error_tree :: "go_error \<Rightarrow> go_error list" where
  "error_tree (Errorf f as) = Errorf f as # concat (map error_tree (wrapped as))"
| "error_tree (Sentinel s) = [Sentinel s]"
| "error_tree (ProtocolError c m) = [ProtocolError c m]"
| "error_tree (NetError m) = [NetError m]"
| "error_tree (PlainError m) = [PlainError m]"
  by pat_completeness auto
termination
  by (relation "measure size") (auto dest: wrapped_size)

definition errors_Is :: "go_error \<Rightarrow> sentinel \<Rightarrow> bool" where
  "errors_Is err target \<longleftrightarrow> Sentinel target \<in> set (error_tree err)"

fun is_ProtocolError_value :: "go_error \<Rightarrow> bool" where
  "is_ProtocolError_value (ProtocolError c m) = True"
| "is_ProtocolError_value e = False"

definition errors_As_ProtocolError :: "go_error \<Rightarrow> go_error option" where
  "errors_As_ProtocolError err = find is_ProtocolError_value (error_tree err)"

text \<open>
  The dynamic types that implement \<^verbatim>\<open>net.Error\<close>: errors of the network stack, the error of a closed
  network connection and \<^verbatim>\<open>context.DeadlineExceeded\<close>, which has the methods of the interface.
\<close>

fun is_net_Error_value :: "go_error \<Rightarrow> bool" where
  "is_net_Error_value (NetError m) = True"
| "is_net_Error_value (Sentinel s) = (s = NetErrClosed \<or> s = CtxDeadlineExceeded)"
| "is_net_Error_value e = False"

definition errors_As_net_Error :: "go_error \<Rightarrow> bool" where
  "errors_As_net_Error err \<longleftrightarrow> list_ex is_net_Error_value (error_tree err)"

text \<open>What a timed-out read or write on a connection returns.\<close>

definition errIOTimeout :: go_error where
  "errIOTimeout = NetError ''i/o timeout''"

subsection \<open>Walking through one layer of wrapping\<close>

lemma errors_Is_Errorf [simp]:
  "errors_Is (Errorf f as) t \<longleftrightarrow> (\<exists>e \<in> set (wrapped as). errors_Is e t)"
  by (auto simp: errors_Is_def)

lemma errors_Is_leaf [simp]:
  "errors_Is (Sentinel s) t \<longleftrightarrow> s = t"
  "errors_Is (ProtocolError c m) t \<longleftrightarrow> False"
  "errors_Is (NetError m) t \<longleftrightarrow> False"
  "errors_Is (PlainError m) t \<longleftrightarrow> False"
  by (auto simp: errors_Is_def)

lemma errors_As_net_Error_Errorf [simp]:
  "errors_As_net_Error (Errorf f as) \<longleftrightarrow> (\<exists>e \<in> set (wrapped as). errors_As_net_Error e)"
  by (auto simp: errors_As_net_Error_def list_ex_iff)

lemma errors_As_net_Error_leaf [simp]:
  "errors_As_net_Error (Sentinel s) \<longleftrightarrow> s = NetErrClosed \<or> s = CtxDeadlineExceeded"
  "errors_As_net_Error (ProtocolError c m) \<longleftrightarrow> False"
  "errors_As_net_Error (NetError m) \<longleftrightarrow> True"
  "errors_As_net_Error (PlainError m) \<longleftrightarrow> False"
  by (auto simp: errors_As_net_Error_def)

lemma errors_As_ProtocolError_leaf [simp]:
  "errors_As_ProtocolError (Sentinel s) = None"
  "errors_As_ProtocolError (ProtocolError c m) = Some (ProtocolError c m)"
  "errors_As_ProtocolError (NetError m) = None"
  "errors_As_ProtocolError (PlainError m) = None"
  by (auto simp: errors_As_ProtocolError_def)

lemma find_append: "find P (xs @ ys) = (case find P xs of None \<Rightarrow> find P ys | Some x \<Rightarrow> Some x)"
  by (induction xs) auto

lemma errors_As_ProtocolError_wrap1 [simp]:
  "errors_As_ProtocolError (Errorf f [W e]) = errors_As_ProtocolError e"
  by (simp add: errors_As_ProtocolError_def)

end
