(* ===== verification/Go_IO.thy ===== *)
theory Go_IO
  imports Go_Errors
begin

text \<open>
  Effectful Go code as functions on an explicit state. A call returns normally, returns an error,
  panics, or never returns because it waits for something that cannot happen; the state is passed
  along in every case. The combinators mirror the shapes of the source: sequencing up to the first
  error, wrapping an error with \<^verbatim>\<open>fmt.Errorf\<close>, and \<^verbatim>\<open>defer\<close>.
\<close>

datatype 'a res = Ok 'a | Err go_error | Panic string | Blocked

type_synonym ('s, 'a) io = "'s \<Rightarrow> 'a res \<times> 's"

definition ret :: "'a \<Rightarrow> ('s, 'a) io" where
  "ret x s = (Ok x, s)"

definition throw :: "go_error \<Rightarrow> ('s, 'a) io" where
  "throw e s = (Err e, s)"

definition bindR :: "('s, 'a) io \<Rightarrow> ('a \<Rightarrow> ('s, 'b) io) \<Rightarrow> ('s, 'b) io" where
  "bindR m f s =
     (case m s of
        (Ok x, s') \<Rightarrow> f x s'
      | (Err e, s') \<Rightarrow> (Err e, s')
      | (Panic p, s') \<Rightarrow> (Panic p, s')
      | (Blocked, s') \<Rightarrow> (Blocked, s'))"

definition mapErr :: "(go_error \<Rightarrow> go_error) \<Rightarrow> ('s, 'a) io \<Rightarrow> ('s, 'a) io" where
  "mapErr g m s = (case m s of (Err e, s') \<Rightarrow> (Err (g e), s') | (r, s') \<Rightarrow> (r, s'))"

definition wrapErr :: "string \<Rightarrow> ('s, 'a) io \<Rightarrow> ('s, 'a) io" where
  "wrapErr format = mapErr (\<lambda>e. Errorf format [W e])"

text \<open>
  \<open>deferR m d\<close> runs \<open>m\<close>, then the deferred call \<open>d\<close> on every way out of \<open>m\<close> that exists, and
  keeps the outcome of \<open>m\<close> unless \<open>d\<close> itself panics or blocks.
\<close>

definition deferR :: "('s, 'a) io \<Rightarrow> ('s, unit) io \<Rightarrow> ('s, 'a) io" where
  "deferR m d s =
     (case m s of
        (Blocked, s') \<Rightarrow> (Blocked, s')
      | (r, s') \<Rightarrow>
          (case d s' of
             (Panic p, s'') \<Rightarrow> (Panic p, s'')
           | (Blocked, s'') \<Rightarrow> (Blocked, s'')
           | (_, s'') \<Rightarrow> (r, s'')))"

fun returns :: "'a res \<Rightarrow> bool" where
  "returns (Ok x) = True"
| "returns (Err e) = True"
| "returns (Panic p) = False"
| "returns Blocked = False"

subsection \<open>Evaluation rules\<close>

lemma ret_throw_simps [simp]:
  "ret x s = (Ok x, s)"
  "throw e s = (Err e, s)"
  by (simp_all add: ret_def throw_def)

lemma bindR_simps [io_simps]:
  "m s = (Ok x, s') \<Longrightarrow> bindR m f s = f x s'"
  "m s = (Err e, s') \<Longrightarrow> bindR m f s = (Err e, s')"
  "m s = (Panic p, s') \<Longrightarrow> bindR m f s = (Panic p, s')"
  "m s = (Blocked, s') \<Longrightarrow> bindR m f s = (Blocked, s')"
  by (simp_all add: bindR_def)

lemma bindR_cong [fundef_cong]:
  assumes "m s = m' s'" and "\<And>x t. m' s' = (Ok x, t) \<Longrightarrow> f x t = f' x t" and "s = s'"
  shows "bindR m f s = bindR m' f' s'"
  using assms by (auto simp: bindR_def split: prod.splits res.splits)

lemma bindR_Ok:
  assumes "bindR m f s = (Ok y, t)"
  obtains x s' where "m s = (Ok x, s')" "f x s' = (Ok y, t)"
  using assms by (auto simp: bindR_def split: prod.splits res.splits)

lemma mapErr_simps [io_simps]:
  "m s = (Ok x, s') \<Longrightarrow> mapErr g m s = (Ok x, s')"
  "m s = (Err e, s') \<Longrightarrow> mapErr g m s = (Err (g e), s')"
  "m s = (Panic p, s') \<Longrightarrow> mapErr g m s = (Panic p, s')"
  "m s = (Blocked, s') \<Longrightarrow> mapErr g m s = (Blocked, s')"
  by (simp_all add: mapErr_def)

lemma mapErr_Ok_iff [simp]: "mapErr g m s = (Ok x, s') \<longleftrightarrow> m s = (Ok x, s')"
  by (auto simp: mapErr_def split: prod.splits res.splits)

lemma snd_mapErr [simp]: "snd (mapErr g m s) = snd (m s)"
  by (auto simp: mapErr_def split: prod.splits res.splits)

lemma returns_mapErr [simp]: "returns (fst (mapErr g m s)) = returns (fst (m s))"
  by (auto simp: mapErr_def split: prod.splits res.splits)

lemma wrapErr_simps [io_simps]:
  "m s = (Ok x, s') \<Longrightarrow> wrapErr fm m s = (Ok x, s')"
  "m s = (Err e, s') \<Longrightarrow> wrapErr fm m s = (Err (Errorf fm [W e]), s')"
  "m s = (Panic p, s') \<Longrightarrow> wrapErr fm m s = (Panic p, s')"
  "m s = (Blocked, s') \<Longrightarrow> wrapErr fm m s = (Blocked, s')"
  by (simp_all add: wrapErr_def mapErr_def)

lemma snd_wrapErr [simp]: "snd (wrapErr g m s) = snd (m s)"
  by (simp add: wrapErr_def)

lemma deferR_simps [io_simps]:
  "m s = (Ok x, s') \<Longrightarrow> d s' = (Ok u, s'') \<Longrightarrow> deferR m d s = (Ok x, s'')"
  "m s = (Err e, s') \<Longrightarrow> d s' = (Ok u, s'') \<Longrightarrow> deferR m d s = (Err e, s'')"
  "m s = (Panic p, s') \<Longrightarrow> d s' = (Ok u, s'') \<Longrightarrow> deferR m d s = (Panic p, s'')"
  "m s = (Blocked, s') \<Longrightarrow> deferR m d s = (Blocked, s')"
  by (simp_all add: deferR_def)

text \<open>
  Invariants of effectful code: \<open>preserves P m\<close> when \<open>m\<close> takes every state with \<open>P\<close> to one with \<open>P\<close>
  and returns, with a value or an error.
\<close>

definition preserves :: "('s \<Rightarrow> bool) \<Rightarrow> ('s, 'a) io \<Rightarrow> bool" where
  "preserves P m \<longleftrightarrow> (\<forall>s. P s \<longrightarrow> returns (fst (m s)) \<and> P (snd (m s)))"

lemma preservesI: "(\<And>s. P s \<Longrightarrow> returns (fst (m s)) \<and> P (snd (m s))) \<Longrightarrow> preserves P m"
  by (simp add: preserves_def)

lemma preservesD: "preserves P m \<Longrightarrow> P s \<Longrightarrow> returns (fst (m s)) \<and> P (snd (m s))"
  by (simp add: preserves_def)

lemma preserves_ret [intro]: "preserves P (ret x)"
  by (simp add: preserves_def)

lemma preserves_throw [intro]: "preserves P (throw e)"
  by (simp add: preserves_def)

lemma preserves_mapErr [intro]: "preserves P m \<Longrightarrow> preserves P (mapErr g m)"
  by (simp add: preserves_def)

lemma preserves_bindR [intro]:
  assumes "preserves P m" and "\<And>x. preserves P (f x)"
  shows "preserves P (bindR m f)"
proof (rule preservesI)
  fix s assume "P s"
  with assms(1) have m: "returns (fst (m s))" "P (snd (m s))" by (auto dest: preservesD)
  show "returns (fst (bindR m f s)) \<and> P (snd (bindR m f s))"
  proof (cases "m s")
    case (Pair r t)
    with m assms(2) show ?thesis
      by (cases r) (auto simp: bindR_def dest: preservesD)
  qed
qed

lemma preserves_deferR [intro]:
  assumes "preserves P m" and "preserves P d"
  shows "preserves P (deferR m d)"
proof (rule preservesI)
  fix s assume s: "P s"
  obtain r t where m: "m s = (r, t)" by (cases "m s")
  obtain r' u where d: "d t = (r', u)" by (cases "d t")
  have "returns r" "P t" using preservesD [OF assms(1) s] m by auto
  moreover from this have "returns r'" "P u" using preservesD [OF assms(2)] d by force+
  ultimately show "returns (fst (deferR m d s)) \<and> P (snd (deferR m d s))"
    using m d by (cases r; cases r') (auto simp: deferR_def)
qed

end
