(* ===== verification/Options.thy ===== *)
theory Options
  imports Go_Errors
begin

text \<open>
  Client options (\<^verbatim>\<open>options.go\<close>): the token and the TLS configuration. The file system, the PEM
  decoder and the key pair loader are the fields of \<open>tls_env\<close>, a parameter of every definition that
  reads a certificate.
\<close>

subsection \<open>TLS configuration\<close>

record TLSConfig =
  CAFile :: string
  CertFile :: string
  KeyFile :: string
  ServerName :: string
  SkipVerify :: bool
  MinVersion :: string

datatype cert_pool = CertPool bytes
datatype certificate = Certificate bytes

text \<open>The fields of \<^verbatim>\<open>tls.Config\<close> the program sets; the others keep their zero value.\<close>

record tls_Config =
  cfg_MinVersion :: uint16
  cfg_ServerName :: string
  cfg_InsecureSkipVerify :: bool
  cfg_RootCAs :: "cert_pool option"
  cfg_Certificates :: "certificate list"

record tls_env =
  os_ReadFile :: "string \<Rightarrow> go_error + bytes"
  AppendCertsFromPEM :: "bytes \<Rightarrow> bool"
  LoadX509KeyPair :: "string \<Rightarrow> string \<Rightarrow> go_error + certificate"

definition VersionTLS12 :: uint16 where
  "VersionTLS12 = 0x0303"

definition VersionTLS13 :: uint16 where
  "VersionTLS13 = 0x0304"

definition TLSConfig_Empty :: "TLSConfig \<Rightarrow> bool" where
  "TLSConfig_Empty c \<longleftrightarrow>
     CAFile c = '''' \<and> CertFile c = '''' \<and> KeyFile c = '''' \<and> ServerName c = '''' \<and>
     MinVersion c = '''' \<and> \<not> SkipVerify c"

definition tlsMinVersion :: "string \<Rightarrow> go_error + uint16" where
  "tlsMinVersion v =
     (if v = '''' \<or> v = ''1.2'' then Inr VersionTLS12
      else if v = ''1.3'' then Inr VersionTLS13
      else Inl (Errorf ''%w: %q'' [W (Sentinel ErrTLSUnknownMinVersion), Q v]))"

definition certPool :: "tls_env \<Rightarrow> string \<Rightarrow> go_error + cert_pool" where
  "certPool env path =
     (case os_ReadFile env path of
        Inl e \<Rightarrow> Inl (Errorf ''read ca file %q: %w'' [Q path, W e])
      | Inr data \<Rightarrow>
          if \<not> AppendCertsFromPEM env data then Inl (Errorf ''no certificates found in %q'' [Q path])
          else Inr (CertPool data))"

text \<open>The two optional blocks of \<^verbatim>\<open>build\<close>, each of which may fail and else extends the configuration.\<close>

definition addRootCAs :: "tls_env \<Rightarrow> TLSConfig \<Rightarrow> tls_Config \<Rightarrow> go_error + tls_Config" where
  "addRootCAs env c config =
     (if CAFile c \<noteq> '''' then
        (case certPool env (CAFile c) of
           Inl e \<Rightarrow> Inl e
         | Inr pool \<Rightarrow> Inr (config\<lparr>cfg_RootCAs := Some pool\<rparr>))
      else Inr config)"

definition addCertificates :: "tls_env \<Rightarrow> TLSConfig \<Rightarrow> tls_Config \<Rightarrow> go_error + tls_Config" where
  "addCertificates env c config =
     (if CertFile c \<noteq> '''' \<or> KeyFile c \<noteq> '''' then
        (if CertFile c = '''' \<or> KeyFile c = '''' then Inl (Sentinel ErrTLSKeyPairIncomplete)
         else case LoadX509KeyPair env (CertFile c) (KeyFile c) of
                Inl e \<Rightarrow> Inl (Errorf ''load key pair: %w'' [W e])
              | Inr crt \<Rightarrow> Inr (config\<lparr>cfg_Certificates := [crt]\<rparr>))
      else Inr config)"

definition TLSConfig_build :: "tls_env \<Rightarrow> TLSConfig \<Rightarrow> go_error + tls_Config option" where
  "TLSConfig_build env c =
     (if TLSConfig_Empty c then Inr None
      else case tlsMinVersion (MinVersion c) of
             Inl e \<Rightarrow> Inl e
           | Inr version \<Rightarrow>
               (let config = \<lparr>cfg_MinVersion = version, cfg_ServerName = ServerName c,
                              cfg_InsecureSkipVerify = SkipVerify c, cfg_RootCAs = None,
                              cfg_Certificates = []\<rparr>
                in case addRootCAs env c config of
                     Inl e \<Rightarrow> Inl e
                   | Inr config \<Rightarrow>
                       (case addCertificates env c config of
                          Inl e \<Rightarrow> Inl e
                        | Inr config \<Rightarrow> Inr (Some config))))"

subsection \<open>Options\<close>

record clientOptions =
  opt_token :: string
  opt_tlsConfig :: "tls_Config option"

text \<open>An option mutates the settings or fails; a nil option is \<open>None\<close>.\<close>

type_synonym Option = "(clientOptions \<Rightarrow> go_error + clientOptions) option"

definition WithToken :: "string \<Rightarrow> Option" where
  "WithToken token = Some (\<lambda>opts. Inr (opts\<lparr>opt_token := token\<rparr>))"

definition WithTLS :: "tls_env \<Rightarrow> TLSConfig \<Rightarrow> Option" where
  "WithTLS env config =
     Some (\<lambda>opts. case TLSConfig_build env config of
                     Inl e \<Rightarrow> Inl e
                   | Inr built \<Rightarrow> Inr (opts\<lparr>opt_tlsConfig := built\<rparr>))"

definition WithTLSConfig :: "tls_Config option \<Rightarrow> Option" where
  "WithTLSConfig config = Some (\<lambda>opts. Inr (opts\<lparr>opt_tlsConfig := config\<rparr>))"

definition zero_clientOptions :: clientOptions where
  "zero_clientOptions = \<lparr>opt_token = '''', opt_tlsConfig = None\<rparr>"

fun applyOptionsFrom :: "clientOptions \<Rightarrow> Option list \<Rightarrow> go_error + clientOptions" where
  "applyOptionsFrom settings [] = Inr settings"
| "applyOptionsFrom settings (None # opts) = applyOptionsFrom settings opts"
| "applyOptionsFrom settings (Some opt # opts) =
     (case opt settings of
        Inl e \<Rightarrow> Inl e
      | Inr settings' \<Rightarrow> applyOptionsFrom settings' opts)"

definition applyOptions :: "Option list \<Rightarrow> go_error + clientOptions" where
  "applyOptions opts = applyOptionsFrom zero_clientOptions opts"

subsection \<open>Lemmas\<close>

lemma tlsMinVersion_Inr: "tlsMinVersion v = Inr n \<Longrightarrow> n = VersionTLS12 \<or> n = VersionTLS13"
  by (auto simp: tlsMinVersion_def split: if_splits)

lemma addRootCAs_frame:
  "addRootCAs env c config = Inr config' \<Longrightarrow>
     config' = config\<lparr>cfg_RootCAs := cfg_RootCAs config'\<rparr> \<and>
     (CAFile c = '''' \<longrightarrow> config' = config) \<and> (CAFile c \<noteq> '''' \<longrightarrow> cfg_RootCAs config' \<noteq> None)"
  by (auto simp: addRootCAs_def split: if_splits sum.splits)

lemma addCertificates_frame:
  "addCertificates env c config = Inr config' \<Longrightarrow>
     config' = config\<lparr>cfg_Certificates := cfg_Certificates config'\<rparr> \<and>
     (CertFile c = '''') = (KeyFile c = '''') \<and>
     (CertFile c = '''' \<longrightarrow> config' = config) \<and>
     (CertFile c \<noteq> '''' \<longrightarrow> (\<exists>crt. LoadX509KeyPair env (CertFile c) (KeyFile c) = Inr crt \<and>
        cfg_Certificates config' = [crt]))"
  by (auto simp: addCertificates_def split: if_splits sum.splits)

lemma applyOptionsFrom_append:
  "applyOptionsFrom s (xs @ ys) =
     (case applyOptionsFrom s xs of Inl e \<Rightarrow> Inl e | Inr s' \<Rightarrow> applyOptionsFrom s' ys)"
  by (induction s xs rule: applyOptionsFrom.induct) (auto split: sum.splits)

subsection \<open>Properties\<close>


definition example_env :: tls_env where
  "example_env = \<lparr>os_ReadFile = (\<lambda>path. Inr path), AppendCertsFromPEM = (\<lambda>data. data \<noteq> []),
     LoadX509KeyPair = (\<lambda>crt key. Inr (Certificate crt))\<rparr>"


text \<open>C39: Options are applied left to right: nil options are skipped, a later WithToken or
  WithTLSConfig overrides what came before and leaves the other setting alone, and the first failing
  option decides the result, no matter what follows. \<^verbatim>\<open>WithTLS\<close> with a configuration in which no field
  is set does not turn TLS on with the roots of the system: it clears whatever TLS configuration was set
  before, and the client dials in plain text.\<close>

theorem applyOptions_order:
  assumes "applyOptions xs = Inr s" and "opt s = Inl e" and "TLSConfig_Empty c"
  shows "applyOptions (xs @ [WithToken t]) = Inr (s\<lparr>opt_token := t\<rparr>)
    \<and> applyOptions (xs @ [WithTLSConfig cfg]) = Inr (s\<lparr>opt_tlsConfig := cfg\<rparr>)
    \<and> applyOptions (xs @ [WithTLS env c]) = Inr (s\<lparr>opt_tlsConfig := None\<rparr>)
    \<and> applyOptions (xs @ [None]) = Inr s
    \<and> applyOptions (xs @ Some opt # ys) = Inl e"
  using assms by (simp add: applyOptions_def applyOptionsFrom_append WithToken_def WithTLSConfig_def WithTLS_def
    TLSConfig_build_def)

theorem applyOptions_order_witness:
  "applyOptions ([WithTLSConfig (Some \<lparr>cfg_MinVersion = VersionTLS13, cfg_ServerName = ''fq'',
      cfg_InsecureSkipVerify = False, cfg_RootCAs = None, cfg_Certificates = []\<rparr>)] @
      [WithTLS example_env \<lparr>CAFile = '''', CertFile = '''', KeyFile = '''', ServerName = '''',
        SkipVerify = False, MinVersion = ''''\<rparr>]) = Inr \<lparr>opt_token = '''', opt_tlsConfig = None\<rparr>"
proof -
  let ?tls = "Some \<lparr>cfg_MinVersion = VersionTLS13, cfg_ServerName = ''fq'',
      cfg_InsecureSkipVerify = False, cfg_RootCAs = None, cfg_Certificates = []\<rparr>"
  let ?opt = "\<lambda>_. Inl (Sentinel ErrTLSKeyPairIncomplete)"
  have "applyOptions [WithTLSConfig ?tls] = Inr \<lparr>opt_token = '''', opt_tlsConfig = ?tls\<rparr>"
    by (simp add: applyOptions_def WithTLSConfig_def zero_clientOptions_def)
  from applyOptions_order [OF this, of ?opt] show ?thesis
    by (simp add: TLSConfig_Empty_def)
qed

end
