(* ===== verification/Network.thy ===== *)
theory Network
  imports Go_IO Options
begin

text \<open>
  The network as the client sees it through \<^verbatim>\<open>net.Conn\<close>: a clock, the connections dialed so far, and
  for each of them what will arrive and how writes will go. What the peer and the network do is not
  part of the program; it is a script, and every theorem holds for every script:

  \<^item> \<open>nc_in\<close> lists, with its arrival time, each byte that will arrive and the failure that ends the
    stream (\<open>RxFail\<close>: end of file, a reset, \<dots>), which stays. When the list is empty nothing more
    arrives.
  \<^item> \<open>nc_tx\<close> lists the outcomes of the coming writes: when each completes, how many bytes it takes at
    most, and its error. When the list is empty, writes take everything at once.
  \<^item> \<open>dials\<close> lists the outcomes of the coming dials, each a failure or a connection with its scripts.
    When the list is empty, dials are refused.

  Reads and writes respect the connection's deadline: one that cannot finish before the deadline fails
  with a timeout at the deadline. Times are in nanoseconds.
\<close>

datatype rx = RxByte char | RxFail go_error

type_synonym rx_script = "(int \<times> rx) list"
type_synonym tx_script = "(int \<times> nat \<times> go_error option) list"

record netconn =
  nc_in :: rx_script
  nc_tx :: tx_script
  nc_out :: bytes
  nc_deadline :: "int option"
  nc_closed :: bool

record world =
  now :: int
  conns :: "nat \<Rightarrow> netconn"
  nconns :: nat
  dials :: "(int \<times> (go_error + rx_script \<times> tx_script)) list"
  dialed :: "(string \<times> tls_Config option) list"

definition expired :: "int option \<Rightarrow> int \<Rightarrow> bool" where
  "expired dl t = (case dl of None \<Rightarrow> False | Some d \<Rightarrow> d \<le> t)"

subsection \<open>Reading\<close>

datatype rx_end = RxDone | RxError go_error | RxWait

fun recv :: "int option \<Rightarrow> int \<Rightarrow> rx_script \<Rightarrow> nat \<Rightarrow> bytes \<times> rx_end \<times> int \<times> rx_script" where
  "recv dl t ins 0 = ([], RxDone, t, ins)"
| "recv dl t [] (Suc n) =
     (case dl of
        None \<Rightarrow> ([], RxWait, t, [])
      | Some d \<Rightarrow> ([], RxError errIOTimeout, max t d, []))"
| "recv dl t ((a, e) # ins) (Suc n) =
     (if expired dl (max t a) then ([], RxError errIOTimeout, max t (the dl), (a, e) # ins)
      else case e of
             RxFail err \<Rightarrow> ([], RxError err, max t a, (a, e) # ins)
           | RxByte b \<Rightarrow>
               (case recv dl (max t a) ins n of (bs, r, t', ins') \<Rightarrow> (b # bs, r, t', ins')))"

text \<open>
  \<^verbatim>\<open>io.ReadFull\<close> on a slice of \<open>n\<close> bytes: the bytes it stored and its error. An end of file after the
  first byte is \<^verbatim>\<open>io.ErrUnexpectedEOF\<close>.
\<close>

definition ReadFull :: "nat \<Rightarrow> nat \<Rightarrow> (world, bytes \<times> go_error option) io" where
  "ReadFull fd n w =
     (let c = conns w fd
      in if nc_closed c \<and> 0 < n then (Ok ([], Some (Sentinel NetErrClosed)), w)
         else case recv (nc_deadline c) (now w) (nc_in c) n of
                (bs, r, t, ins) \<Rightarrow>
                  (let w' = w\<lparr>now := t, conns := (conns w)(fd := c\<lparr>nc_in := ins\<rparr>)\<rparr>
                   in case r of
                        RxDone \<Rightarrow> (Ok (bs, None), w')
                      | RxWait \<Rightarrow> (Blocked, w')
                      | RxError e \<Rightarrow>
                          (Ok (bs, Some (if e = Sentinel EOF \<and> bs \<noteq> [] then Sentinel ErrUnexpectedEOF
                                         else e)), w')))"

subsection \<open>Writing, deadlines, closing, dialing\<close>

definition conn_Write :: "nat \<Rightarrow> bytes \<Rightarrow> world \<Rightarrow> (nat \<times> go_error option) \<times> world" where
  "conn_Write fd data w =
     (let c = conns w fd
      in if nc_closed c then ((0, Some (Sentinel NetErrClosed)), w)
         else case nc_tx c of
                [] \<Rightarrow>
                  if expired (nc_deadline c) (now w) then ((0, Some errIOTimeout), w)
                  else ((length data, None),
                        w\<lparr>conns := (conns w)(fd := c\<lparr>nc_out := nc_out c @ data\<rparr>)\<rparr>)
              | (a, n, e) # tx \<Rightarrow>
                  if expired (nc_deadline c) (max (now w) a)
                  then ((0, Some errIOTimeout),
                        w\<lparr>now := max (now w) (the (nc_deadline c)),
                          conns := (conns w)(fd := c\<lparr>nc_tx := tx\<rparr>)\<rparr>)
                  else ((min n (length data), e),
                        w\<lparr>now := max (now w) a,
                          conns := (conns w)(fd := c\<lparr>nc_tx := tx, nc_out := nc_out c @ take n data\<rparr>)\<rparr>))"

definition conn_SetDeadline :: "nat \<Rightarrow> int \<Rightarrow> (world, unit) io" where
  "conn_SetDeadline fd d w =
     (if nc_closed (conns w fd) then (Err (Sentinel NetErrClosed), w)
      else (Ok (), w\<lparr>conns := (conns w)(fd := (conns w fd)\<lparr>nc_deadline := Some d\<rparr>)\<rparr>))"

definition conn_Close :: "nat \<Rightarrow> (world, unit) io" where
  "conn_Close fd w =
     (if nc_closed (conns w fd) then (Err (Sentinel NetErrClosed), w)
      else (Ok (), w\<lparr>conns := (conns w)(fd := (conns w fd)\<lparr>nc_closed := True\<rparr>)\<rparr>))"

text \<open>\<^verbatim>\<open>net.Dial\<close> and \<^verbatim>\<open>tls.Dial\<close>: the next outcome of the script; a new connection gets the next number.\<close>

definition net_Dial :: "string \<Rightarrow> tls_Config option \<Rightarrow> (world, nat) io" where
  "net_Dial addr tls w =
     (let w = w\<lparr>dialed := dialed w @ [(addr, tls)]\<rparr>
      in case dials w of
           [] \<Rightarrow> (Err (NetError ''connection refused''), w)
         | (a, Inl e) # ds \<Rightarrow> (Err e, w\<lparr>now := max (now w) a, dials := ds\<rparr>)
         | (a, Inr (ins, tx)) # ds \<Rightarrow>
             (Ok (nconns w),
              w\<lparr>now := max (now w) a, dials := ds, nconns := Suc (nconns w),
                conns := (conns w)(nconns w :=
                  \<lparr>nc_in = ins, nc_tx = tx, nc_out = [], nc_deadline = None, nc_closed = False\<rparr>)\<rparr>))"

subsection \<open>Contexts\<close>

text \<open>
  A \<^verbatim>\<open>context.Context\<close>: its deadline and the time at which it is cancelled, if any. Its error is set
  by whichever comes first.
\<close>

record ctx =
  ctx_deadline :: "int option"
  ctx_cancel :: "int option"

definition ctx_Err :: "ctx \<Rightarrow> int \<Rightarrow> go_error option" where
  "ctx_Err ctx t =
     (if expired (ctx_cancel ctx) t \<and> \<not> expired (ctx_deadline ctx) (the (ctx_cancel ctx) - 1)
      then Some (Sentinel CtxCanceled)
      else if expired (ctx_deadline ctx) t then Some (Sentinel CtxDeadlineExceeded)
      else None)"

definition ctx_Background :: ctx where
  "ctx_Background = \<lparr>ctx_deadline = None, ctx_cancel = None\<rparr>"

definition ctx_WithTimeout :: "int \<Rightarrow> int \<Rightarrow> ctx" where
  "ctx_WithTimeout t d = \<lparr>ctx_deadline = Some (t + d), ctx_cancel = None\<rparr>"

subsection \<open>Lemmas on reading\<close>

lemma recv_length: "recv dl t ins n = (bs, r, t', ins') \<Longrightarrow> length ins = length bs + length ins'"
  by (induction dl t ins n arbitrary: bs r t' ins' rule: recv.induct)
    (auto split: if_splits rx.splits prod.splits option.splits)

lemma recv_count:
  "recv dl t ins n = (bs, r, t', ins') \<Longrightarrow> length bs \<le> n \<and> (r = RxDone \<longleftrightarrow> length bs = n)"
proof (induction ins arbitrary: t n bs)
  case Nil
  then show ?case by (cases n; cases dl) auto
next
  case (Cons x ins)
  obtain a e where x: "x = (a, e)" by (cases x)
  show ?case
  proof (cases n)
    case (Suc m)
    with Cons.prems x show ?thesis
      by (cases e) (auto split: if_splits prod.splits dest!: Cons.IH)
  qed (use Cons.prems x in auto)
qed

text \<open>What has been read is a prefix of the script: the bytes, in order.\<close>

lemma recv_prefix:
  "recv dl t ins n = (bs, r, t', ins') \<Longrightarrow> \<exists>pre. ins = pre @ ins' \<and> map snd pre = map RxByte bs"
proof (induction dl t ins n arbitrary: bs r t' ins' rule: recv.induct)
  case (3 dl t a e ins n)
  show ?case
  proof (cases "\<not> expired dl (max t a) \<and> (\<exists>b. e = RxByte b)")
    case True
    then obtain b where e: "e = RxByte b" by blast
    obtain bs0 where r: "recv dl (max t a) ins n = (bs0, r, t', ins')" "bs = b # bs0"
      using "3.prems" True e by (auto split: prod.splits)
    from "3.IH" [OF _ e r(1)] True obtain pre where "ins = pre @ ins'" "map snd pre = map RxByte bs0"
      by blast
    with r e show ?thesis by (intro exI [of _ "(a, e) # pre"]) simp
  next
    case False
    with "3.prems" show ?thesis by (auto split: if_splits rx.splits)
  qed
qed (auto split: option.splits)

lemma recv_clock:
  "recv dl t ins n = (bs, r, t', ins') \<Longrightarrow> t \<le> t' \<and> (\<forall>d. dl = Some d \<longrightarrow> t' \<le> max t d)"
proof (induction ins arbitrary: t n bs)
  case Nil
  then show ?case by (cases n; cases dl) auto
next
  case (Cons x ins)
  obtain a e where x: "x = (a, e)" by (cases x)
  show ?case
  proof (cases n)
    case (Suc m)
    with Cons.prems x Cons.IH [of "max t a" m "tl bs"] show ?thesis
      by (cases e) (auto simp: expired_def split: if_splits prod.splits option.splits)
  qed (use Cons.prems x in auto)
qed

lemma recv_wait: "recv dl t ins n = (bs, RxWait, t', ins') \<Longrightarrow> dl = None"
proof (induction ins arbitrary: t n bs)
  case Nil
  then show ?case by (cases n; cases dl) auto
next
  case (Cons x ins)
  obtain a e where x: "x = (a, e)" by (cases x)
  from Cons.prems x Cons.IH [of "max t a" "n - 1" "tl bs"] show ?case
    by (cases n; cases e) (auto split: if_splits prod.splits)
qed

text \<open>Bytes that all arrive before the deadline are read, and nothing else is.\<close>

definition prompt :: "int \<Rightarrow> rx_script \<Rightarrow> bool" where
  "prompt d ins \<longleftrightarrow> list_all (\<lambda>(a, e). a < d) ins"

definition arrival :: "int \<Rightarrow> rx_script \<Rightarrow> int" where
  "arrival t ins = foldl (\<lambda>t (a, e). max t a) t ins"

lemma arrival_simps [simp]:
  "arrival t [] = t"
  "arrival t ((a, e) # ins) = arrival (max t a) ins"
  "arrival t (xs @ ys) = arrival (arrival t xs) ys"
  by (simp_all add: arrival_def)

lemma prompt_simps [simp]:
  "prompt d []"
  "prompt d ((a, e) # ins) \<longleftrightarrow> a < d \<and> prompt d ins"
  "prompt d (xs @ ys) \<longleftrightarrow> prompt d xs \<and> prompt d ys"
  by (auto simp: prompt_def)

lemma arrival_bounds: "t \<le> arrival t ins \<and> (prompt d ins \<and> t < d \<longrightarrow> arrival t ins < d)"
proof (induction ins arbitrary: t)
  case (Cons x ins)
  obtain a e where "x = (a, e)" by (cases x)
  with Cons [of "max t a"] show ?case by auto
qed simp

lemma recv_prompt:
  assumes "map snd pre = map RxByte bs" and "prompt d pre" and "t < d"
  shows "recv (Some d) t (pre @ rest) (length bs) = (bs, RxDone, arrival t pre, rest)"
  using assms
proof (induction pre arbitrary: bs t)
  case (Cons x pre)
  obtain a where x: "x = (a, RxByte (hd bs))" and bs: "bs \<noteq> []"
    using Cons.prems(1) by (cases x; cases bs) auto
  moreover have "recv (Some d) (max t a) (pre @ rest) (length (tl bs)) =
      (tl bs, RxDone, arrival (max t a) pre, rest)"
    using Cons.prems x by (intro Cons.IH) (auto simp: map_tl [symmetric])
  ultimately show ?case
    using Cons.prems by (cases bs) (auto simp: expired_def)
qed simp

end
