(* ===== verification/Go_Strings.thy ===== *)
theory Go_Strings
  imports Fq_Prelude
begin

text \<open>
  The parts of Go's \<^verbatim>\<open>bytes\<close>, \<^verbatim>\<open>strings\<close> and \<^verbatim>\<open>strconv\<close> packages the client calls, on byte
  strings: searching and splitting at a delimiter byte, and decimal numbers. \<^verbatim>\<open>ParseUint\<close> is Go's
  digit loop on 64-bit words with its two overflow tests; it is proved equal to the mathematical
  reading of a decimal numeral, and inverse to \<^verbatim>\<open>FormatUint\<close>.
\<close>

subsection \<open>Searching, slicing, splitting\<close>

fun IndexByte :: "bytes \<Rightarrow> char \<Rightarrow> int" where
  "IndexByte [] c = -1"
| "IndexByte (b # s) c =
     (if b = c then 0 else if IndexByte s c = -1 then -1 else IndexByte s c + 1)"

definition slice_to :: "bytes \<Rightarrow> int \<Rightarrow> bytes" where
  "slice_to s i = take (nat i) s"

definition slice_from :: "bytes \<Rightarrow> int \<Rightarrow> bytes" where
  "slice_from s i = drop (nat i) s"

fun Split :: "bytes \<Rightarrow> char \<Rightarrow> bytes list" where
  "Split [] c = [[]]"
| "Split (b # s) c =
     (if b = c then [] # Split s c else (b # hd (Split s c)) # tl (Split s c))"

definition SplitN2 :: "bytes \<Rightarrow> char \<Rightarrow> bytes list" where
  "SplitN2 s c =
     (if IndexByte s c = -1 then [s]
      else [slice_to s (IndexByte s c), slice_from s (IndexByte s c + 1)])"

fun Join :: "char \<Rightarrow> bytes list \<Rightarrow> bytes" where
  "Join c [] = []"
| "Join c [f] = f"
| "Join c (f # g # fs) = f @ c # Join c (g # fs)"

subsection \<open>Decimal numbers\<close>

definition is_digit :: "char \<Rightarrow> bool" where
  "is_digit c \<longleftrightarrow> 48 \<le> (of_char c :: nat) \<and> (of_char c :: nat) \<le> 57"

definition digit_val :: "char \<Rightarrow> nat" where
  "digit_val c = of_char c - 48"

definition digit_char :: "nat \<Rightarrow> char" where
  "digit_char d = char_of (48 + d)"

definition parse_cutoff :: uint64 where
  "parse_cutoff = 18446744073709551615 div 10 + 1"

fun parse_uint_loop :: "uint64 \<Rightarrow> uint64 \<Rightarrow> bytes \<Rightarrow> uint64 option" where
  "parse_uint_loop maxVal n [] = Some n"
| "parse_uint_loop maxVal n (c # s) =
     (if \<not> is_digit c then None
      else if parse_cutoff \<le> n then None
      else let n' = n * 10; n1 = n' + of_nat (digit_val c)
           in if n1 < n' \<or> maxVal < n1 then None else parse_uint_loop maxVal n1 s)"

definition ParseUint :: "bytes \<Rightarrow> nat \<Rightarrow> uint64 option" where
  "ParseUint s bitSize = (if s = [] then None else parse_uint_loop (2 ^ bitSize - 1) 0 s)"

fun dec_digits :: "nat \<Rightarrow> bytes" where
  "dec_digits n =
     (if n < 10 then [digit_char n] else dec_digits (n div 10) @ [digit_char (n mod 10)])"

definition FormatUint :: "uint64 \<Rightarrow> bytes" where
  "FormatUint n = dec_digits (unat n)"

definition Itoa :: "int \<Rightarrow> bytes" where
  "Itoa i = (if i < 0 then CHR ''-'' # dec_digits (nat (- i)) else dec_digits (nat i))"

definition Atoi :: "bytes \<Rightarrow> int option" where
  "Atoi s =
     (if s = [] then None
      else let neg = (hd s = CHR ''-'');
               t = (if hd s = CHR ''+'' \<or> neg then tl s else s)
           in case ParseUint t 64 of
                None \<Rightarrow> None
              | Some un \<Rightarrow>
                  if \<not> neg \<and> 2 ^ 63 \<le> uint un then None
                  else if neg \<and> 2 ^ 63 < uint un then None
                  else Some (if neg then - uint un else uint un))"

text \<open>The mathematical reading of a numeral, the reference for \<^const>\<open>ParseUint\<close>.\<close>

definition dec_value :: "nat \<Rightarrow> bytes \<Rightarrow> nat" where
  "dec_value = foldl (\<lambda>n c. n * 10 + digit_val c)"

definition is_numeral :: "bytes \<Rightarrow> bool" where
  "is_numeral s \<longleftrightarrow> s \<noteq> [] \<and> list_all is_digit s"

subsection \<open>Lemmas on searching and splitting\<close>

lemma IndexByte_ge: "-1 \<le> IndexByte s c"
  by (induction s) auto

lemma IndexByte_neg [simp]: "IndexByte s c = -1 \<longleftrightarrow> c \<notin> set s"
proof (induction s)
  case (Cons b s)
  then show ?case using IndexByte_ge [of s c] by auto
qed simp

lemma IndexByte_append [simp]:
  "c \<notin> set pre \<Longrightarrow> IndexByte (pre @ c # post) c = int (length pre)"
  by (induction pre) auto

lemma slice_to_append [simp]: "slice_to (pre @ post) (int (length pre)) = pre"
  by (simp add: slice_to_def)

lemma slice_from_append [simp]: "slice_from (pre @ c # post) (int (length pre) + 1) = post"
  by (simp add: slice_from_def nat_add_distrib)

lemma Split_not_Nil [simp]: "Split s c \<noteq> []"
  by (cases s) auto

lemma Split_no_delim [simp]: "c \<notin> set s \<Longrightarrow> Split s c = [s]"
  by (induction s) auto

lemma Split_append [simp]:
  "c \<notin> set pre \<Longrightarrow> Split (pre @ c # post) c = pre # Split post c"
  by (induction pre) auto

lemma Split_Join:
  "fs \<noteq> [] \<Longrightarrow> (\<And>f. f \<in> set fs \<Longrightarrow> c \<notin> set f) \<Longrightarrow> Split (Join c fs) c = fs"
  by (induction c fs rule: Join.induct) auto

lemma Join_Cons: "fs \<noteq> [] \<Longrightarrow> Join c (f # fs) = f @ c # Join c fs"
  by (cases fs) auto

lemma Join_Split: "Join c (Split s c) = s"
proof (induction s)
  case (Cons b s)
  obtain f fs where "Split s c = f # fs"
    by (cases "Split s c") auto
  with Cons show ?case by (cases fs) auto
qed simp

lemma SplitN2_append [simp]:
  "c \<notin> set pre \<Longrightarrow> SplitN2 (pre @ c # post) c = [pre, post]"
  by (simp add: SplitN2_def)

lemma SplitN2_no_delim [simp]: "c \<notin> set s \<Longrightarrow> SplitN2 s c = [s]"
  by (simp add: SplitN2_def)

lemma delimiter_cases:
  obtains (none) "c \<notin> set s" | (some) pre post where "s = pre @ c # post" "c \<notin> set pre"
  using split_list_first [of c s] by blast

subsection \<open>Decimal numbers read and written\<close>

lemma dec_value_Nil [simp]: "dec_value n [] = n"
  by (simp add: dec_value_def)

lemma dec_value_Cons [simp]: "dec_value n (c # s) = dec_value (n * 10 + digit_val c) s"
  by (simp add: dec_value_def)

lemma dec_value_append: "dec_value n (s @ t) = dec_value (dec_value n s) t"
  by (simp add: dec_value_def)

lemma dec_value_ge: "n \<le> dec_value n s"
proof (induction s arbitrary: n)
  case (Cons c s)
  have "n \<le> n * 10 + digit_val c" by simp
  also have "\<dots> \<le> dec_value (n * 10 + digit_val c) s" by (rule Cons.IH)
  finally show ?case by simp
qed simp

lemma digit_val_less: "is_digit c \<Longrightarrow> digit_val c < 10"
  by (auto simp: is_digit_def digit_val_def)

lemma digit_val_char [simp]: "d < 10 \<Longrightarrow> digit_val (digit_char d) = d"
  by (simp add: digit_val_def digit_char_def)

lemma is_digit_char [simp]: "d < 10 \<Longrightarrow> is_digit (digit_char d)"
  by (simp add: is_digit_def digit_char_def)

lemma digit_char_table [wire_simps]:
  "digit_char 0 = CHR ''0''" "digit_char 1 = CHR ''1''" "digit_char 2 = CHR ''2''"
  "digit_char 3 = CHR ''3''" "digit_char 4 = CHR ''4''" "digit_char 5 = CHR ''5''"
  "digit_char 6 = CHR ''6''" "digit_char 7 = CHR ''7''" "digit_char 8 = CHR ''8''"
  "digit_char 9 = CHR ''9''"
  by code_simp+

text \<open>One turn of the loop fails exactly when the number so far exceeds the maximum.\<close>

lemma parse_step_ok:
  assumes "d < 10" and "\<not> parse_cutoff \<le> n"
  shows "n * 10 + of_nat d < n * 10 \<or> maxVal < n * 10 + of_nat d \<longleftrightarrow>
      unat maxVal < unat n * 10 + d"
    and "unat n * 10 + d \<le> unat maxVal \<Longrightarrow> unat (n * 10 + of_nat d) = unat n * 10 + d"
proof -
  have n: "unat n < 1844674407370955162"
    using assms(2) by (simp add: parse_cutoff_def word_less_nat_alt not_le)
  have n10: "unat (n * 10) = unat n * 10"
    using n by (simp add: unat_word_ariths)
  have d: "unat (of_nat d :: uint64) = d"
    using assms(1) by (simp add: unat_of_nat)
  have sum: "unat (n * 10 + of_nat d) = (unat n * 10 + d) mod 2 ^ 64"
    by (simp only: unat_word_ariths(1) n10 d) simp
  have max: "unat maxVal < 2 ^ 64"
    using unsigned_less [of maxVal, where 'a = nat] by simp
  show eq: "unat n * 10 + d \<le> unat maxVal \<Longrightarrow> unat (n * 10 + of_nat d) = unat n * 10 + d"
    using sum max by simp
  show "n * 10 + of_nat d < n * 10 \<or> maxVal < n * 10 + of_nat d \<longleftrightarrow>
      unat maxVal < unat n * 10 + d"
  proof (cases "unat n * 10 + d < 2 ^ 64")
    case True
    then show ?thesis using sum by (simp add: word_less_nat_alt n10)
  next
    case False
    then have "(unat n * 10 + d) mod 2 ^ 64 = unat n * 10 + d - 2 ^ 64"
      using n assms(1) by (simp add: mod_if)
    moreover have "unat n * 10 + d - 2 ^ 64 < unat n * 10"
      using False assms(1) by simp
    moreover have "unat maxVal < unat n * 10 + d"
      using False max by simp
    ultimately show ?thesis using sum by (simp add: word_less_nat_alt n10)
  qed
qed

lemma parse_cutoff_exceeds:
  assumes "parse_cutoff \<le> n"
  shows "unat (maxVal :: uint64) < unat n * 10 + d"
proof -
  have "1844674407370955162 \<le> unat n"
    using assms by (simp add: parse_cutoff_def word_le_nat_alt)
  with unsigned_less [of maxVal, where 'a = nat] show ?thesis by simp
qed

lemma parse_uint_loop_eq:
  assumes "unat n \<le> unat maxVal"
  shows "parse_uint_loop maxVal n s =
    (if list_all is_digit s \<and> dec_value (unat n) s \<le> unat maxVal
     then Some (of_nat (dec_value (unat n) s)) else None)"
  using assms
proof (induction s arbitrary: n)
  case Nil
  then show ?case by simp
next
  case (Cons c s)
  let ?m = "unat n * 10 + digit_val c"
  show ?case
  proof (cases "is_digit c \<and> \<not> parse_cutoff \<le> n \<and> ?m \<le> unat maxVal")
    case True
    then have d: "digit_val c < 10" by (simp add: digit_val_less)
    with True have u: "unat (n * 10 + of_nat (digit_val c)) = ?m"
      using parse_step_ok(2) [of "digit_val c" n maxVal] by simp
    with True d show ?thesis
      using parse_step_ok(1) [of "digit_val c" n maxVal]
        Cons.IH [of "n * 10 + of_nat (digit_val c)"] by (simp add: Let_def)
  next
    case False
    have "unat maxVal < dec_value ?m s" if "unat maxVal < ?m"
      using that dec_value_ge [of ?m s] by simp
    with False show ?thesis
      using parse_step_ok(1) [of "digit_val c" n maxVal] parse_cutoff_exceeds [of n maxVal "digit_val c"]
        digit_val_less [of c] by (auto simp: Let_def)
  qed
qed

lemma unat_mask_bits: "bits \<le> 64 \<Longrightarrow> unat (2 ^ bits - 1 :: uint64) = 2 ^ bits - 1"
proof -
  assume b: "bits \<le> 64"
  have "uint (2 ^ bits - 1 :: uint64) = 2 ^ bits - 1"
    using b by (simp add: uint_mask_eq mask_eq_exp_minus_1 [symmetric] min_def)
  then show ?thesis by (simp add: nat_diff_distrib nat_power_eq flip: nat_uint_eq)
qed

theorem ParseUint_eq:
  assumes "bits \<le> 64"
  shows "ParseUint s bits =
    (if is_numeral s \<and> dec_value 0 s < 2 ^ bits then Some (of_nat (dec_value 0 s)) else None)"
proof -
  have "(dec_value 0 s \<le> 2 ^ bits - 1) = (dec_value 0 s < 2 ^ bits)"
    using zero_less_power [of "2 :: nat" bits] by linarith
  then show ?thesis
    using parse_uint_loop_eq [of 0 "2 ^ bits - 1" s]
    by (simp add: ParseUint_def is_numeral_def unat_mask_bits [OF assms])
qed

lemma ParseUint_bound:
  assumes "ParseUint s bits = Some v" and "bits \<le> 64"
  shows "unat v < 2 ^ bits"
proof -
  have v: "v = of_nat (dec_value 0 s)" and d: "dec_value 0 s < 2 ^ bits"
    using assms by (auto simp: ParseUint_eq split: if_splits)
  have "dec_value 0 s < 2 ^ 64"
    using d assms(2) by (meson less_le_trans one_le_numeral power_increasing)
  then show ?thesis using v d by (simp add: unat_of_nat)
qed

lemma dec_digits_numeral: "is_numeral (dec_digits n) \<and> dec_value 0 (dec_digits n) = n"
proof (induction n rule: dec_digits.induct)
  case (1 n)
  show ?case
  proof (cases "n < 10")
    case True
    then show ?thesis by (subst (1 2) dec_digits.simps) (simp add: is_numeral_def)
  next
    case False
    with 1 have "is_numeral (dec_digits (n div 10))" "dec_value 0 (dec_digits (n div 10)) = n div 10"
      by simp_all
    with False show ?thesis
      by (subst (1 2) dec_digits.simps) (simp add: is_numeral_def dec_value_append)
  qed
qed

declare dec_digits.simps [simp del]

lemma is_numeral_dec_digits [simp]: "is_numeral (dec_digits n)"
  by (simp add: dec_digits_numeral)

lemma dec_value_dec_digits [simp]: "dec_value 0 (dec_digits n) = n"
  by (simp add: dec_digits_numeral)

lemma dec_digits_not_Nil [simp]: "dec_digits n \<noteq> []"
  using is_numeral_dec_digits [of n] by (auto simp: is_numeral_def)

lemma non_digit_not_in_numeral: "is_numeral s \<Longrightarrow> \<not> is_digit c \<Longrightarrow> c \<notin> set s"
  by (auto simp: is_numeral_def list_all_iff)

lemma delimiters_not_digits [simp]:
  "\<not> is_digit CHR '';''" "\<not> is_digit CHR ''|''" "\<not> is_digit CHR '' ''" "\<not> is_digit CHR '':''"
  "\<not> is_digit CHR ''-''" "\<not> is_digit CHR ''+''"
  by (simp_all add: is_digit_def)

lemma delim_not_in_dec_digits [simp]: "\<not> is_digit c \<Longrightarrow> c \<notin> set (dec_digits n)"
  by (rule non_digit_not_in_numeral) simp

theorem ParseUint_dec_digits [wire_simps]:
  "bits \<le> 64 \<Longrightarrow> n < 2 ^ bits \<Longrightarrow> ParseUint (dec_digits n) bits = Some (of_nat n)"
  by (simp add: ParseUint_eq)

lemma ParseUint_FormatUint [wire_simps]: "ParseUint (FormatUint v) 64 = Some v"
  using ParseUint_dec_digits [of 64 "unat v"] unsigned_less [of v, where 'a = nat]
  by (simp add: FormatUint_def)

lemma ParseUint_FormatUint_ucast [wire_simps]:
  "ParseUint (FormatUint (ucast (v :: uint32))) 32 = Some (ucast v)"
  "ParseUint (FormatUint (ucast (w :: uint16))) 16 = Some (ucast w)"
proof -
  have "unat (ucast v :: uint64) = unat v" "unat (ucast w :: uint64) = unat w"
    using unsigned_less [of v, where 'a = nat] unsigned_less [of w, where 'a = nat]
    by (simp_all add: unsigned_ucast_eq take_bit_nat_eq_self_iff)
  then show "ParseUint (FormatUint (ucast v)) 32 = Some (ucast v)"
    "ParseUint (FormatUint (ucast w)) 16 = Some (ucast w)"
    using ParseUint_dec_digits [of 32 "unat v"] ParseUint_dec_digits [of 16 "unat w"]
      unsigned_less [of v, where 'a = nat] unsigned_less [of w, where 'a = nat]
    by (simp_all add: FormatUint_def)
qed

interpretation uint64_codec: codec FormatUint "\<lambda>s. ParseUint s 64" "\<lambda>_. True"
  by unfold_locales (simp add: wire_simps)

lemma uint_of_nat_small: "n < 2 ^ 64 \<Longrightarrow> uint (of_nat n :: uint64) = int n"
  by (simp add: unsigned_of_nat take_bit_nat_eq_self)

lemma Atoi_dec_digits:
  assumes "n < 2 ^ 63"
  shows "Atoi (dec_digits n) = Some (int n)"
proof -
  have "is_digit (hd (dec_digits n))"
    using is_numeral_dec_digits [of n] by (auto simp: is_numeral_def list_all_iff)
  then have "hd (dec_digits n) \<noteq> CHR ''-''" "hd (dec_digits n) \<noteq> CHR ''+''"
    by auto
  then show ?thesis
    using assms by (simp add: Atoi_def Let_def ParseUint_dec_digits uint_of_nat_small)
qed

lemma Atoi_neg_dec_digits:
  assumes "n \<le> 2 ^ 63"
  shows "Atoi (CHR ''-'' # dec_digits n) = Some (- int n)"
  using assms by (simp add: Atoi_def Let_def ParseUint_dec_digits uint_of_nat_small)

theorem Atoi_Itoa: "- (2 ^ 63) \<le> i \<Longrightarrow> i < 2 ^ 63 \<Longrightarrow> Atoi (Itoa i) = Some i"
  using Atoi_dec_digits [of "nat i"] Atoi_neg_dec_digits [of "nat (- i)"]
  by (auto simp: Itoa_def nat_less_iff nat_le_iff)

end
