(* ===== verification/Response.thy ===== *)
theory Response
  imports Go_Errors Go_Strings "HOL-Library.Monad_Syntax"
begin

text \<open>
  The responses of the server (\<^verbatim>\<open>response.go\<close>): error codes, the error payload, and one parser per
  kind of response. Every parser cuts the response at the first \<^verbatim>\<open>|\<close> into a status and its data and
  switches on the status. The result structs of the source all have a status, one payload and an
  error; they are instances of the record \<open>parsed\<close>. A parser's second result, its error, is the
  left side of a sum; the branch of the status \<^verbatim>\<open>ok\<close> is a definition of its own, \<open>None\<close> where the
  source returns \<^verbatim>\<open>ErrCorruptedResponse\<close>.

  The contract the parsers share is the locale \<open>response_parser\<close>, interpreted for each of them.
\<close>

subsection \<open>Result types of the operations (client.go)\<close>

record RateLimitResult =
  rl_Allowed :: bool
  rl_Current :: uint64
  rl_Remaining :: uint64
  rl_ResetAfter :: uint32

record LimitEvent =
  le_Key :: string
  le_Window :: uint32
  le_Current :: uint64
  le_ResetAfter :: uint32

record QuotaAcquireResult =
  qa_Acquired :: bool
  qa_Allocated :: uint64
  qa_Used :: uint64
  qa_Remaining :: uint64
  qa_ExpiresAfter :: uint32

record QuotaClientInfo =
  qc_ClientID :: string
  qc_Amount :: uint64
  qc_ExpiresAt :: uint32

record QuotaInfo =
  qi_Limit :: uint64
  qi_Used :: uint64
  qi_Remaining :: uint64
  qi_Clients :: "QuotaClientInfo list"

record ScanKey =
  sk_Key :: string
  sk_Window :: uint32

record ScanResult =
  sr_Cursor :: string
  sr_Keys :: "ScanKey list"

record QuotaEvent =
  qe_Event :: string
  qe_Name :: string
  qe_ClientID :: string
  qe_Amount :: uint64
  qe_Used :: uint64
  qe_Remaining :: uint64
  qe_ExpiresAt :: uint32

subsection \<open>Delimiters, statuses, error codes\<close>

definition respDelimiter :: char where
  "respDelimiter = CHR ''|''"

definition multiDataDelimiter :: char where
  "multiDataDelimiter = CHR '';''"

definition frameStatusOK :: bytes where
  "frameStatusOK = ''ok''"

definition frameStatusError :: bytes where
  "frameStatusError = ''err''"

definition frameStatusNext :: bytes where
  "frameStatusNext = ''nxt''"

text \<open>The table of error codes of the protocol, by name.\<close>

definition error_codes :: "(string \<times> uint16) list" where
  "error_codes =
    [(''CodeInvalidSymbol'', 1000), (''CodeInvalidCommand'', 1001),
     (''CodeInvalidArguments'', 1002), (''CodeInvalidArgumentsCount'', 1003),
     (''CodeMessageSizeExceedsMaximum'', 1004), (''CodeHandshakeRequired'', 1010),
     (''CodeUnsupportedProtocolVersion'', 1011),
     (''CodeProtocolVersionAlreadyNegotiated'', 1012),
     (''CodeKeyCannotBeEmpty'', 2000), (''CodeKeyLengthExceedsMaximum'', 2001),
     (''CodeBatchIsNotNumber'', 2002), (''CodeInvalidBatchSize'', 2003),
     (''CodeLimitIsNotNumber'', 2004), (''CodeInvalidLimit'', 2005),
     (''CodeInvalidRateLimitAlgorithm'', 2006), (''CodeInvalidScanCount'', 2007),
     (''CodeInvalidScanCursor'', 2008), (''CodeNotAuthenticated'', 3000),
     (''CodePermissionDenied'', 3001), (''CodeAuthenticationFailed'', 3002),
     (''CodeTooManyAuthenticationFailures'', 3003), (''CodeQuotaNotFound'', 4000),
     (''CodeQuotaLimitMismatch'', 4001), (''CodeQuotaAlreadyAcquiredDifferentSize'', 4002),
     (''CodeQuotaIsNotEmpty'', 4003), (''CodeQuotaLimitBelowUsedAmount'', 4004),
     (''CodeQuotaOwnershipMismatch'', 4005), (''CodeQuotaPolicyMismatch'', 4006),
     (''CodeScanIndexDisabled'', 5000), (''CodeInspectNotAvailable'', 5001),
     (''CodeInspectReportTooLarge'', 5002), (''CodeMaxMessageSizeTooSmallForChunk'', 5003),
     (''CodeInternal'', 9000), (''CodeInternalConfiguration'', 9001)]"

definition CodeAuthenticationFailed :: uint16 where
  "CodeAuthenticationFailed = 3002"

definition CodePermissionDenied :: uint16 where
  "CodePermissionDenied = 3001"

datatype ResponseStatus = ResponseStatusUnknown | ResponseStatusSuccess | ResponseStatusError

record 'v parsed =
  p_status :: ResponseStatus
  p_payload :: 'v
  p_err :: "go_error option"

abbreviation corrupted :: "go_error + 'r" where
  "corrupted \<equiv> Inl (Sentinel ErrCorruptedResponse)"

abbreviation unknown_status :: "go_error + 'r" where
  "unknown_status \<equiv> Inl (Sentinel ErrUnknownRespStatus)"

abbreviation success :: "'v \<Rightarrow> 'v parsed" where
  "success v \<equiv> \<lparr>p_status = ResponseStatusSuccess, p_payload = v, p_err = None\<rparr>"

text \<open>The error field set and the payload at its zero value, as in the source's struct literals.\<close>

abbreviation failure :: "'v \<Rightarrow> go_error \<Rightarrow> 'v parsed" where
  "failure zero e \<equiv> \<lparr>p_status = ResponseStatusError, p_payload = zero, p_err = Some e\<rparr>"

subsection \<open>Protocol errors\<close>

definition parseError :: "bytes \<Rightarrow> go_error" where
  "parseError data =
     (let fs = SplitN2 data respDelimiter
      in if length fs \<noteq> 2 then Sentinel ErrCorruptedResponse
         else case ParseUint (fs ! 0) 16 of
                None \<Rightarrow> Sentinel ErrCorruptedResponse
              | Some code \<Rightarrow>
                  if 9999 < code then Sentinel ErrCorruptedResponse
                  else ProtocolError (ucast code) (fs ! 1))"

text \<open>The text of a \<^verbatim>\<open>*ProtocolError\<close>, empty for the nil pointer; \<^verbatim>\<open>%04d\<close> pads with zeros.\<close>

definition pad4 :: "bytes \<Rightarrow> bytes" where
  "pad4 s = replicate (4 - length s) CHR ''0'' @ s"

fun ProtocolError_Error :: "(uint16 \<times> string) option \<Rightarrow> string" where
  "ProtocolError_Error None = ''''"
| "ProtocolError_Error (Some (code, message)) = pad4 (dec_digits (unat code)) @ '': '' @ message"

definition isProtocolCode :: "go_error option \<Rightarrow> uint16 \<Rightarrow> bool" where
  "isProtocolCode err code =
     (case err of
        None \<Rightarrow> False
      | Some e \<Rightarrow> (case errors_As_ProtocolError e of
                     Some (ProtocolError c m) \<Rightarrow> c = code
                   | _ \<Rightarrow> False))"

definition parseBoolField :: "bytes \<Rightarrow> bool option" where
  "parseBoolField data =
     (if data = ''0'' then Some False else if data = ''1'' then Some True else None)"

subsection \<open>The branch of the status ok, per kind of response\<close>

record helloInfo =
  hi_version :: uint64
  hi_maxMessageSize :: int
  hi_authRequired :: bool
  hi_role :: string

definition helloFields :: "bytes \<Rightarrow> helloInfo option" where
  "helloFields data =
     (case Split data multiDataDelimiter of
        [f0, f1, f2, f3] \<Rightarrow> do {
          version \<leftarrow> ParseUint f0 64;
          maxMessageSize \<leftarrow> ParseUint f1 31;
          if maxMessageSize = 0 then None else do {
            authRequired \<leftarrow> parseBoolField f2;
            Some \<lparr>hi_version = version, hi_maxMessageSize = uint maxMessageSize,
                  hi_authRequired = authRequired, hi_role = f3\<rparr>
          }
        }
      | _ \<Rightarrow> None)"

text \<open>
  The loop of \<^verbatim>\<open>respDataToValues\<close> on a suffix of the data whose first part ends at index \<open>idx\<close>.
  It stops after the part that ends with the data (\<open>idx\<close> is never beyond the data's end).
\<close>

function resp_values_loop :: "bytes \<Rightarrow> int \<Rightarrow> uint64 list \<Rightarrow> uint64 list option" where
  "resp_values_loop data idx vals =
     (if idx < 0 then Some vals
      else case ParseUint (slice_to data idx) 64 of
             None \<Rightarrow> None
           | Some v \<Rightarrow>
               if int (length data) \<le> idx then Some (vals @ [v])
               else let data' = slice_from data (idx + 1);
                        i = IndexByte data' multiDataDelimiter
                    in resp_values_loop data' (if i = -1 then int (length data') else i) (vals @ [v]))"
  by pat_completeness auto
termination
  by (relation "measure (\<lambda>(data, idx, vals). length data)") (auto simp: slice_from_def)

definition respDataToValues :: "bytes \<Rightarrow> uint64 list option" where
  "respDataToValues data =
     (let idx = IndexByte data multiDataDelimiter
      in if idx = -1
         then (case ParseUint data 64 of None \<Rightarrow> None | Some v \<Rightarrow> Some [v])
         else resp_values_loop data idx [])"

definition rateLimitFields :: "bytes \<Rightarrow> RateLimitResult option" where
  "rateLimitFields data =
     (case Split data multiDataDelimiter of
        [f0, f1, f2, f3] \<Rightarrow> do {
          allowed \<leftarrow> parseBoolField f0;
          current \<leftarrow> ParseUint f1 64;
          remaining \<leftarrow> ParseUint f2 64;
          resetAfter \<leftarrow> ParseUint f3 32;
          Some \<lparr>rl_Allowed = allowed, rl_Current = current, rl_Remaining = remaining,
                rl_ResetAfter = ucast resetAfter\<rparr>
        }
      | _ \<Rightarrow> None)"

definition quotaAcquireFields :: "bytes \<Rightarrow> QuotaAcquireResult option" where
  "quotaAcquireFields data =
     (case Split data multiDataDelimiter of
        [f0, f1, f2, f3, f4] \<Rightarrow> do {
          acquired \<leftarrow> parseBoolField f0;
          allocated \<leftarrow> ParseUint f1 64;
          used \<leftarrow> ParseUint f2 64;
          remaining \<leftarrow> ParseUint f3 64;
          expiresAfter \<leftarrow> ParseUint f4 32;
          Some \<lparr>qa_Acquired = acquired, qa_Allocated = allocated, qa_Used = used,
                qa_Remaining = remaining, qa_ExpiresAfter = ucast expiresAfter\<rparr>
        }
      | _ \<Rightarrow> None)"

text \<open>
  The loop over the clients takes three fields a turn. An incomplete last group cannot arise: the
  number of fields is checked before the loop.
\<close>

fun quotaClients :: "bytes list \<Rightarrow> QuotaClientInfo list option" where
  "quotaClients (f0 # f1 # f2 # fs) = do {
     amount \<leftarrow> ParseUint f1 64;
     expiresAt \<leftarrow> ParseUint f2 32;
     clients \<leftarrow> quotaClients fs;
     Some (\<lparr>qc_ClientID = f0, qc_Amount = amount, qc_ExpiresAt = ucast expiresAt\<rparr> # clients)
   }"
| "quotaClients fs = Some []"

definition quotaInfoFields :: "bytes \<Rightarrow> QuotaInfo option" where
  "quotaInfoFields data =
     (let fs = Split data multiDataDelimiter
      in if length fs < 3 \<or> (length fs - 3) mod 3 \<noteq> 0 then None
         else do {
           limit \<leftarrow> ParseUint (fs ! 0) 64;
           used \<leftarrow> ParseUint (fs ! 1) 64;
           remaining \<leftarrow> ParseUint (fs ! 2) 64;
           clients \<leftarrow> quotaClients (drop 3 fs);
           Some \<lparr>qi_Limit = limit, qi_Used = used, qi_Remaining = remaining, qi_Clients = clients\<rparr>
         })"

fun scanKeys :: "bytes list \<Rightarrow> ScanKey list option" where
  "scanKeys (f0 # f1 # fs) = do {
     window \<leftarrow> ParseUint f1 32;
     ks \<leftarrow> scanKeys fs;
     Some (\<lparr>sk_Key = f0, sk_Window = ucast window\<rparr> # ks)
   }"
| "scanKeys fs = Some []"

definition scanFields :: "bytes \<Rightarrow> ScanResult option" where
  "scanFields data =
     (let fs = Split data multiDataDelimiter
      in if length fs < 1 \<or> (length fs - 1) mod 2 \<noteq> 0 then None
         else do {
           ks \<leftarrow> scanKeys (drop 1 fs);
           Some \<lparr>sr_Cursor = fs ! 0, sr_Keys = ks\<rparr>
         })"

definition limitEventFields :: "bytes \<Rightarrow> LimitEvent option" where
  "limitEventFields data =
     (case Split data multiDataDelimiter of
        [f0, f1, f2, f3] \<Rightarrow> do {
          window \<leftarrow> ParseUint f1 32;
          current \<leftarrow> ParseUint f2 64;
          resetAfter \<leftarrow> ParseUint f3 32;
          Some \<lparr>le_Key = f0, le_Window = ucast window, le_Current = current,
                le_ResetAfter = ucast resetAfter\<rparr>
        }
      | _ \<Rightarrow> None)"

definition quotaEventFields :: "bytes \<Rightarrow> QuotaEvent option" where
  "quotaEventFields data =
     (case Split data multiDataDelimiter of
        [f0, f1, f2, f3, f4, f5, f6] \<Rightarrow> do {
          amount \<leftarrow> ParseUint f3 64;
          used \<leftarrow> ParseUint f4 64;
          remaining \<leftarrow> ParseUint f5 64;
          expiresAt \<leftarrow> ParseUint f6 32;
          Some \<lparr>qe_Event = f0, qe_Name = f1, qe_ClientID = f2, qe_Amount = amount, qe_Used = used,
                qe_Remaining = remaining, qe_ExpiresAt = ucast expiresAt\<rparr>
        }
      | _ \<Rightarrow> None)"

subsection \<open>Zero values\<close>

definition zero_helloInfo :: helloInfo where
  "zero_helloInfo = \<lparr>hi_version = 0, hi_maxMessageSize = 0, hi_authRequired = False, hi_role = ''''\<rparr>"

definition zero_RateLimitResult :: RateLimitResult where
  "zero_RateLimitResult =
     \<lparr>rl_Allowed = False, rl_Current = 0, rl_Remaining = 0, rl_ResetAfter = 0\<rparr>"

definition zero_QuotaAcquireResult :: QuotaAcquireResult where
  "zero_QuotaAcquireResult =
     \<lparr>qa_Acquired = False, qa_Allocated = 0, qa_Used = 0, qa_Remaining = 0, qa_ExpiresAfter = 0\<rparr>"

definition zero_QuotaInfo :: QuotaInfo where
  "zero_QuotaInfo = \<lparr>qi_Limit = 0, qi_Used = 0, qi_Remaining = 0, qi_Clients = []\<rparr>"

definition zero_ScanResult :: ScanResult where
  "zero_ScanResult = \<lparr>sr_Cursor = '''', sr_Keys = []\<rparr>"

definition zero_LimitEvent :: LimitEvent where
  "zero_LimitEvent = \<lparr>le_Key = '''', le_Window = 0, le_Current = 0, le_ResetAfter = 0\<rparr>"

definition zero_QuotaEvent :: QuotaEvent where
  "zero_QuotaEvent =
     \<lparr>qe_Event = '''', qe_Name = '''', qe_ClientID = '''', qe_Amount = 0, qe_Used = 0,
      qe_Remaining = 0, qe_ExpiresAt = 0\<rparr>"

subsection \<open>The parsers\<close>

definition parseHelloResponse :: "bytes \<Rightarrow> go_error + helloInfo parsed" where
  "parseHelloResponse resp =
     (let idx = IndexByte resp respDelimiter
      in if idx = -1 then corrupted
         else let status = slice_to resp idx; data = slice_from resp (idx + 1)
              in if status = frameStatusOK
                 then (case helloFields data of None \<Rightarrow> corrupted | Some v \<Rightarrow> Inr (success v))
                 else if status = frameStatusError then Inr (failure zero_helloInfo (parseError data))
                 else unknown_status)"

definition parseResponse :: "bytes \<Rightarrow> go_error + uint64 parsed" where
  "parseResponse resp =
     (let idx = IndexByte resp respDelimiter
      in if idx = -1 then corrupted
         else let status = slice_to resp idx; data = slice_from resp (idx + 1)
              in if status = frameStatusOK
                 then (case ParseUint data 64 of None \<Rightarrow> corrupted | Some v \<Rightarrow> Inr (success v))
                 else if status = frameStatusError then Inr (failure 0 (parseError data))
                 else unknown_status)"

definition parseMultiResponse :: "bytes \<Rightarrow> go_error + uint64 list parsed" where
  "parseMultiResponse resp =
     (let idx = IndexByte resp respDelimiter
      in if idx = -1 then corrupted
         else let status = slice_to resp idx; data = slice_from resp (idx + 1)
              in if status = frameStatusOK
                 then (case respDataToValues data of None \<Rightarrow> corrupted | Some v \<Rightarrow> Inr (success v))
                 else if status = frameStatusError then Inr (failure [] (parseError data))
                 else unknown_status)"

definition parseRateLimitResponse :: "bytes \<Rightarrow> go_error + RateLimitResult parsed" where
  "parseRateLimitResponse resp =
     (let idx = IndexByte resp respDelimiter
      in if idx = -1 then corrupted
         else let status = slice_to resp idx; data = slice_from resp (idx + 1)
              in if status = frameStatusOK
                 then (case rateLimitFields data of None \<Rightarrow> corrupted | Some v \<Rightarrow> Inr (success v))
                 else if status = frameStatusError then Inr (failure zero_RateLimitResult (parseError data))
                 else unknown_status)"

definition parseQuotaAcquireResponse :: "bytes \<Rightarrow> go_error + QuotaAcquireResult parsed" where
  "parseQuotaAcquireResponse resp =
     (let idx = IndexByte resp respDelimiter
      in if idx = -1 then corrupted
         else let status = slice_to resp idx; data = slice_from resp (idx + 1)
              in if status = frameStatusOK
                 then (case quotaAcquireFields data of None \<Rightarrow> corrupted | Some v \<Rightarrow> Inr (success v))
                 else if status = frameStatusError then Inr (failure zero_QuotaAcquireResult (parseError data))
                 else unknown_status)"

definition parseQuotaInfoResponse :: "bytes \<Rightarrow> go_error + QuotaInfo parsed" where
  "parseQuotaInfoResponse resp =
     (let idx = IndexByte resp respDelimiter
      in if idx = -1 then corrupted
         else let status = slice_to resp idx; data = slice_from resp (idx + 1)
              in if status = frameStatusOK
                 then (case quotaInfoFields data of None \<Rightarrow> corrupted | Some v \<Rightarrow> Inr (success v))
                 else if status = frameStatusError then Inr (failure zero_QuotaInfo (parseError data))
                 else unknown_status)"

definition parseScanResponse :: "bytes \<Rightarrow> go_error + ScanResult parsed" where
  "parseScanResponse resp =
     (let idx = IndexByte resp respDelimiter
      in if idx = -1 then corrupted
         else let status = slice_to resp idx; data = slice_from resp (idx + 1)
              in if status = frameStatusOK
                 then (case scanFields data of None \<Rightarrow> corrupted | Some v \<Rightarrow> Inr (success v))
                 else if status = frameStatusError then Inr (failure zero_ScanResult (parseError data))
                 else unknown_status)"

definition parseLimitEventResponse :: "bytes \<Rightarrow> go_error + LimitEvent parsed" where
  "parseLimitEventResponse resp =
     (let idx = IndexByte resp respDelimiter
      in if idx = -1 then corrupted
         else let status = slice_to resp idx; data = slice_from resp (idx + 1)
              in if status = frameStatusOK
                 then (case limitEventFields data of None \<Rightarrow> corrupted | Some v \<Rightarrow> Inr (success v))
                 else if status = frameStatusError then Inr (failure zero_LimitEvent (parseError data))
                 else unknown_status)"

definition parseQuotaEventResponse :: "bytes \<Rightarrow> go_error + QuotaEvent parsed" where
  "parseQuotaEventResponse resp =
     (let idx = IndexByte resp respDelimiter
      in if idx = -1 then corrupted
         else let status = slice_to resp idx; data = slice_from resp (idx + 1)
              in if status = frameStatusOK
                 then (case quotaEventFields data of None \<Rightarrow> corrupted | Some v \<Rightarrow> Inr (success v))
                 else if status = frameStatusError then Inr (failure zero_QuotaEvent (parseError data))
                 else unknown_status)"

subsection \<open>The contract of a response parser\<close>

text \<open>
  What the client relies on in every parser, whatever its payload: where the response is cut, which
  statuses exist, and which error each malformed response gives.
\<close>

locale response_parser =
  fixes parse :: "bytes \<Rightarrow> go_error + 'v parsed"
    and ok_branch :: "bytes \<Rightarrow> go_error + 'v"
    and zero :: 'v
  assumes no_delimiter: "respDelimiter \<notin> set resp \<Longrightarrow> parse resp = corrupted"
    and status_ok: "parse (frameStatusOK @ respDelimiter # data) = map_sum id success (ok_branch data)"
    and status_err:
      "parse (frameStatusError @ respDelimiter # data) = Inr (failure zero (parseError data))"
    and status_other:
      "respDelimiter \<notin> set st \<Longrightarrow> st \<noteq> frameStatusOK \<Longrightarrow> st \<noteq> frameStatusError \<Longrightarrow>
         parse (st @ respDelimiter # data) = unknown_status"
begin

lemma response_cases:
  obtains (malformed) "parse resp = corrupted" "respDelimiter \<notin> set resp"
  | (ok) data where "resp = frameStatusOK @ respDelimiter # data"
      "parse resp = map_sum id success (ok_branch data)"
  | (err) data where "resp = frameStatusError @ respDelimiter # data"
      "parse resp = Inr (failure zero (parseError data))"
  | (other) st data where "resp = st @ respDelimiter # data" "respDelimiter \<notin> set st"
      "st \<noteq> frameStatusOK" "st \<noteq> frameStatusError" "parse resp = unknown_status"
proof (cases rule: delimiter_cases [of respDelimiter resp])
  case none
  then show ?thesis using malformed no_delimiter by blast
next
  case (some st data)
  then show ?thesis
    by (metis ok err other status_ok status_err status_other)
qed

text \<open>A parsed response is a success without an error or an error response with its error set.\<close>

lemma parsed_status:
  assumes "parse resp = Inr r"
  shows "(\<exists>v. r = success v) \<or> (\<exists>data. r = failure zero (parseError data))"
  using assms by (cases rule: response_cases [of resp]) (auto simp: map_sum_eq_Inr)

lemma success_iff:
  "parse resp = Inr (success v) \<longleftrightarrow>
     (\<exists>data. resp = frameStatusOK @ respDelimiter # data \<and> ok_branch data = Inr v)"
  (is "?l \<longleftrightarrow> ?r")
proof
  assume ?l
  then show ?r
    by (cases rule: response_cases [of resp]) (auto simp: map_sum_eq_Inr)
next
  assume ?r
  then show ?l by (auto simp: status_ok)
qed

lemma unknown_status_iff:
  assumes "\<And>data. ok_branch data \<noteq> unknown_status"
  shows "parse resp = unknown_status \<longleftrightarrow>
     (\<exists>st data. resp = st @ respDelimiter # data \<and> respDelimiter \<notin> set st \<and>
        st \<noteq> frameStatusOK \<and> st \<noteq> frameStatusError)"
  (is "?l \<longleftrightarrow> ?r")
proof
  assume l: ?l
  then show ?r
  proof (cases rule: response_cases [of resp])
    case (ok data)
    then show ?thesis using l assms [of data] by (cases "ok_branch data") auto
  qed auto
next
  assume ?r
  then show ?l using status_other by blast
qed

end

text \<open>Success values of the ok branch, and \<^verbatim>\<open>ErrCorruptedResponse\<close> where it fails.\<close>

definition or_corrupted :: "'v option \<Rightarrow> go_error + 'v" where
  "or_corrupted x = (case x of None \<Rightarrow> corrupted | Some v \<Rightarrow> Inr v)"

lemma or_corrupted_simps [simp]:
  "or_corrupted None = corrupted"
  "or_corrupted (Some v) = Inr v"
  "or_corrupted x = Inr v \<longleftrightarrow> x = Some v"
  "or_corrupted x \<noteq> unknown_status"
  by (auto simp: or_corrupted_def split: option.splits)

lemma delimiter_not_in_status [simp]:
  "respDelimiter \<notin> set frameStatusOK" "respDelimiter \<notin> set frameStatusError"
  "respDelimiter \<notin> set frameStatusNext"
  "frameStatusOK \<noteq> frameStatusError" "frameStatusError \<noteq> frameStatusOK"
  "frameStatusNext \<noteq> frameStatusOK" "frameStatusNext \<noteq> frameStatusError"
  "frameStatusOK \<noteq> frameStatusNext" "frameStatusError \<noteq> frameStatusNext"
  by (simp_all add: respDelimiter_def frameStatusOK_def frameStatusError_def frameStatusNext_def)

interpretation hello: response_parser parseHelloResponse "\<lambda>d. or_corrupted (helloFields d)" zero_helloInfo
  by unfold_locales (auto simp: parseHelloResponse_def Let_def split: option.splits)

interpretation single: response_parser parseResponse "\<lambda>d. or_corrupted (ParseUint d 64)" 0
  by unfold_locales (auto simp: parseResponse_def Let_def split: option.splits)

interpretation multi: response_parser parseMultiResponse "\<lambda>d. or_corrupted (respDataToValues d)" "[]"
  by unfold_locales (auto simp: parseMultiResponse_def Let_def split: option.splits)

interpretation rateLimit: response_parser parseRateLimitResponse
    "\<lambda>d. or_corrupted (rateLimitFields d)" zero_RateLimitResult
  by unfold_locales (auto simp: parseRateLimitResponse_def Let_def split: option.splits)

interpretation quotaAcq: response_parser parseQuotaAcquireResponse
    "\<lambda>d. or_corrupted (quotaAcquireFields d)" zero_QuotaAcquireResult
  by unfold_locales (auto simp: parseQuotaAcquireResponse_def Let_def split: option.splits)

interpretation quotaInf: response_parser parseQuotaInfoResponse
    "\<lambda>d. or_corrupted (quotaInfoFields d)" zero_QuotaInfo
  by unfold_locales (auto simp: parseQuotaInfoResponse_def Let_def split: option.splits)

interpretation scanResp: response_parser parseScanResponse
    "\<lambda>d. or_corrupted (scanFields d)" zero_ScanResult
  by unfold_locales (auto simp: parseScanResponse_def Let_def split: option.splits)

interpretation limitEv: response_parser parseLimitEventResponse
    "\<lambda>d. or_corrupted (limitEventFields d)" zero_LimitEvent
  by unfold_locales (auto simp: parseLimitEventResponse_def Let_def split: option.splits)

interpretation quotaEv: response_parser parseQuotaEventResponse
    "\<lambda>d. or_corrupted (quotaEventFields d)" zero_QuotaEvent
  by unfold_locales (auto simp: parseQuotaEventResponse_def Let_def split: option.splits)

subsection \<open>Protocol errors\<close>

lemma parseError_no_delimiter: "respDelimiter \<notin> set data \<Longrightarrow> parseError data = Sentinel ErrCorruptedResponse"
  by (simp add: parseError_def)

lemma parseError_delimiter:
  assumes "respDelimiter \<notin> set s"
  shows "parseError (s @ respDelimiter # m) =
    (if is_numeral s \<and> dec_value 0 s \<le> 9999 then ProtocolError (of_nat (dec_value 0 s)) m
     else Sentinel ErrCorruptedResponse)"
proof -
  let ?n = "dec_value 0 s"
  have "(9999 :: uint64) < of_nat ?n \<longleftrightarrow> 9999 < ?n" if "?n < 2 ^ 16"
    using that by (simp add: word_less_nat_alt unat_of_nat)
  moreover have "ucast (of_nat ?n :: uint64) = (of_nat ?n :: uint16)" if "?n < 2 ^ 16"
    using that by (simp add: unsigned_of_nat take_bit_nat_eq_self)
  ultimately show ?thesis
    using assms by (simp add: parseError_def ParseUint_eq)
qed

lemma parseError_result:
  "parseError data = Sentinel ErrCorruptedResponse \<or>
   (\<exists>c m. parseError data = ProtocolError c m \<and> unat c \<le> 9999)"
  by (cases rule: delimiter_cases [of respDelimiter data])
    (auto simp: parseError_no_delimiter parseError_delimiter unat_of_nat)

lemma parseError_encoded:
  assumes "unat code \<le> 9999"
  shows "parseError (pad4 (dec_digits (unat code)) @ respDelimiter # m) = ProtocolError code m"
    and "parseError (dec_digits (unat code) @ respDelimiter # m) = ProtocolError code m"
proof -
  have zeros: "dec_value 0 (replicate k CHR ''0'') = 0" for k
    by (induction k) (auto simp: digit_val_def)
  have zero_digit: "is_digit CHR ''0''" "respDelimiter \<noteq> CHR ''0''" "\<not> is_digit respDelimiter"
    by (simp_all add: is_digit_def respDelimiter_def)
  have "is_numeral (pad4 (dec_digits (unat code)))"
    using is_numeral_dec_digits [of "unat code"] zero_digit
    by (auto simp: pad4_def is_numeral_def list_all_iff)
  moreover have "dec_value 0 (pad4 (dec_digits (unat code))) = unat code"
    by (simp add: pad4_def dec_value_append zeros)
  ultimately show "parseError (pad4 (dec_digits (unat code)) @ respDelimiter # m) = ProtocolError code m"
    using assms zero_digit non_digit_not_in_numeral [of "pad4 (dec_digits (unat code))" respDelimiter]
    by (simp add: parseError_delimiter)
  show "parseError (dec_digits (unat code) @ respDelimiter # m) = ProtocolError code m"
    using assms zero_digit by (simp add: parseError_delimiter)
qed

lemma error_codes_table: "list_all (\<lambda>(name, code). 1000 \<le> unat code \<and> unat code \<le> 9999) error_codes"
  by (simp add: error_codes_def)

lemma error_codes_distinct: "distinct (map snd error_codes)"
  by (simp add: error_codes_def)

subsection \<open>Values and fields\<close>

lemma multiDataDelimiter_not_digit [simp]: "\<not> is_digit multiDataDelimiter"
  by (simp add: multiDataDelimiter_def)

text \<open>
  The index-based loop of \<^verbatim>\<open>respDataToValues\<close> computes what splitting at the delimiter and parsing
  every part computes.
\<close>

declare resp_values_loop.simps [simp del]

lemma resp_values_loop_eq:
  "resp_values_loop data
     (if multiDataDelimiter \<in> set data then IndexByte data multiDataDelimiter else int (length data)) vals =
   map_option ((@) vals) (mapM (\<lambda>s. ParseUint s 64) (Split data multiDataDelimiter))"
proof (induction data arbitrary: vals rule: length_induct)
  case (1 data)
  show ?case
  proof (cases rule: delimiter_cases [of multiDataDelimiter data])
    case none
    then show ?thesis
      by (subst resp_values_loop.simps) (auto simp: slice_to_def split: option.splits)
  next
    case (some pre post)
    have IH: "resp_values_loop post
        (if multiDataDelimiter \<in> set post then IndexByte post multiDataDelimiter else int (length post)) us =
      map_option ((@) us) (mapM (\<lambda>s. ParseUint s 64) (Split post multiDataDelimiter))" for us
      using 1 some by simp
    have "resp_values_loop data (int (length pre)) vals =
      (case ParseUint pre 64 of None \<Rightarrow> None
       | Some v \<Rightarrow> map_option ((@) (vals @ [v]))
           (mapM (\<lambda>s. ParseUint s 64) (Split post multiDataDelimiter)))"
      using IH some by (subst resp_values_loop.simps) (auto simp: Let_def split: option.splits)
    then show ?thesis
      using some by (auto simp: map_option_case split: option.splits)
  qed
qed

lemma respDataToValues_eq:
  "respDataToValues data = mapM (\<lambda>s. ParseUint s 64) (Split data multiDataDelimiter)"
  using resp_values_loop_eq [of data "[]"]
  by (auto simp: respDataToValues_def Let_def map_option_case split: option.splits)

subsection \<open>The wire format, written by the server\<close>

text \<open>
  Reference encoders: the response a server sends for a value, in the format the parsers document.
  Numbers are written in decimal, flags as \<^verbatim>\<open>0\<close> or \<^verbatim>\<open>1\<close>, fields joined by \<^verbatim>\<open>;\<close>.
\<close>

definition ok_response :: "bytes list \<Rightarrow> bytes" where
  "ok_response fs = frameStatusOK @ respDelimiter # Join multiDataDelimiter fs"

definition err_response :: "uint16 \<Rightarrow> string \<Rightarrow> bytes" where
  "err_response code m =
     frameStatusError @ respDelimiter # pad4 (dec_digits (unat code)) @ respDelimiter # m"

definition bool_field :: "bool \<Rightarrow> bytes" where
  "bool_field b = (if b then ''1'' else ''0'')"

definition u32_field :: "uint32 \<Rightarrow> bytes" where
  "u32_field v = FormatUint (ucast v)"

definition rateLimit_wire :: "RateLimitResult \<Rightarrow> bytes list" where
  "rateLimit_wire r =
     [bool_field (rl_Allowed r), FormatUint (rl_Current r), FormatUint (rl_Remaining r),
      u32_field (rl_ResetAfter r)]"

definition quotaAcquire_wire :: "QuotaAcquireResult \<Rightarrow> bytes list" where
  "quotaAcquire_wire r =
     [bool_field (qa_Acquired r), FormatUint (qa_Allocated r), FormatUint (qa_Used r),
      FormatUint (qa_Remaining r), u32_field (qa_ExpiresAfter r)]"

definition quotaClient_wire :: "QuotaClientInfo \<Rightarrow> bytes list" where
  "quotaClient_wire c = [qc_ClientID c, FormatUint (qc_Amount c), u32_field (qc_ExpiresAt c)]"

definition quotaInfo_wire :: "QuotaInfo \<Rightarrow> bytes list" where
  "quotaInfo_wire q =
     [FormatUint (qi_Limit q), FormatUint (qi_Used q), FormatUint (qi_Remaining q)] @
     concat (map quotaClient_wire (qi_Clients q))"

definition scanKey_wire :: "ScanKey \<Rightarrow> bytes list" where
  "scanKey_wire k = [sk_Key k, u32_field (sk_Window k)]"

definition scan_wire :: "ScanResult \<Rightarrow> bytes list" where
  "scan_wire r = sr_Cursor r # concat (map scanKey_wire (sr_Keys r))"

definition limitEvent_wire :: "LimitEvent \<Rightarrow> bytes list" where
  "limitEvent_wire e =
     [le_Key e, u32_field (le_Window e), FormatUint (le_Current e), u32_field (le_ResetAfter e)]"

definition quotaEvent_wire :: "QuotaEvent \<Rightarrow> bytes list" where
  "quotaEvent_wire e =
     [qe_Event e, qe_Name e, qe_ClientID e, FormatUint (qe_Amount e), FormatUint (qe_Used e),
      FormatUint (qe_Remaining e), u32_field (qe_ExpiresAt e)]"

definition hello_wire :: "helloInfo \<Rightarrow> bytes list" where
  "hello_wire h =
     [FormatUint (hi_version h), dec_digits (nat (hi_maxMessageSize h)),
      bool_field (hi_authRequired h), hi_role h]"

lemma ucast_up_down [simp]: "ucast (ucast (w :: uint32) :: uint64) = w"
  by (rule bit_word_eqI) (simp add: bit_ucast_iff)

lemma parse_written_fields [simp]:
  "parseBoolField (bool_field b) = Some b"
  "ParseUint (FormatUint v) 64 = Some v"
  "ParseUint (u32_field w) 32 = Some (ucast w)"
  by (auto simp: parseBoolField_def bool_field_def u32_field_def wire_simps)

lemma delimiter_not_in_fields [simp]:
  "multiDataDelimiter \<notin> set (bool_field b)"
  "multiDataDelimiter \<notin> set (FormatUint v)"
  "multiDataDelimiter \<notin> set (u32_field w)"
  "multiDataDelimiter \<notin> set (dec_digits n)"
  by (auto simp: bool_field_def u32_field_def FormatUint_def multiDataDelimiter_def)

lemma quotaClients_wire [simp]: "quotaClients (concat (map quotaClient_wire cs)) = Some cs"
  by (induction cs) (auto simp: quotaClient_wire_def)

lemma scanKeys_wire [simp]: "scanKeys (concat (map scanKey_wire ks)) = Some ks"
  by (induction ks) (auto simp: scanKey_wire_def)

lemma length_concat_wire [simp]:
  "length (concat (map quotaClient_wire cs)) = 3 * length cs"
  "length (concat (map scanKey_wire ks)) = 2 * length ks"
  by (induction cs; simp add: quotaClient_wire_def) (induction ks; simp add: scanKey_wire_def)

definition separable :: "bytes list \<Rightarrow> bool" where
  "separable fs \<longleftrightarrow> list_all (\<lambda>f. multiDataDelimiter \<notin> set f) fs"

lemma Split_wire: "separable fs \<Longrightarrow> fs \<noteq> [] \<Longrightarrow> Split (Join multiDataDelimiter fs) multiDataDelimiter = fs"
  by (rule Split_Join) (auto simp: separable_def list_all_iff)

lemma rateLimitFields_wire: "rateLimitFields (Join multiDataDelimiter (rateLimit_wire r)) = Some r"
  using Split_wire [of "rateLimit_wire r"]
  by (simp add: rateLimitFields_def rateLimit_wire_def separable_def)

lemma quotaAcquireFields_wire:
  "quotaAcquireFields (Join multiDataDelimiter (quotaAcquire_wire r)) = Some r"
  using Split_wire [of "quotaAcquire_wire r"]
  by (simp add: quotaAcquireFields_def quotaAcquire_wire_def separable_def)

lemma quotaInfoFields_wire:
  assumes "list_all (\<lambda>c. multiDataDelimiter \<notin> set (qc_ClientID c)) (qi_Clients q)"
  shows "quotaInfoFields (Join multiDataDelimiter (quotaInfo_wire q)) = Some q"
proof -
  have "separable (quotaInfo_wire q)"
    using assms by (auto simp: separable_def quotaInfo_wire_def quotaClient_wire_def list_all_iff)
  then have "Split (Join multiDataDelimiter (quotaInfo_wire q)) multiDataDelimiter = quotaInfo_wire q"
    by (rule Split_wire) (simp add: quotaInfo_wire_def)
  then show ?thesis
    by (simp add: quotaInfoFields_def quotaInfo_wire_def Let_def)
qed

lemma scanFields_wire:
  assumes "multiDataDelimiter \<notin> set (sr_Cursor r)"
    and "list_all (\<lambda>k. multiDataDelimiter \<notin> set (sk_Key k)) (sr_Keys r)"
  shows "scanFields (Join multiDataDelimiter (scan_wire r)) = Some r"
proof -
  have "separable (scan_wire r)"
    using assms by (auto simp: separable_def scan_wire_def scanKey_wire_def list_all_iff)
  then have "Split (Join multiDataDelimiter (scan_wire r)) multiDataDelimiter = scan_wire r"
    by (rule Split_wire) (simp add: scan_wire_def)
  then show ?thesis
    by (simp add: scanFields_def scan_wire_def Let_def)
qed

lemma limitEventFields_wire:
  assumes "multiDataDelimiter \<notin> set (le_Key e)"
  shows "limitEventFields (Join multiDataDelimiter (limitEvent_wire e)) = Some e"
  using assms Split_wire [of "limitEvent_wire e"]
  by (simp add: limitEventFields_def limitEvent_wire_def separable_def)

lemma quotaEventFields_wire:
  assumes "multiDataDelimiter \<notin> set (qe_Event e)" "multiDataDelimiter \<notin> set (qe_Name e)"
    "multiDataDelimiter \<notin> set (qe_ClientID e)"
  shows "quotaEventFields (Join multiDataDelimiter (quotaEvent_wire e)) = Some e"
  using assms Split_wire [of "quotaEvent_wire e"]
  by (simp add: quotaEventFields_def quotaEvent_wire_def separable_def)

lemma helloFields_wire:
  assumes "0 < hi_maxMessageSize h" "hi_maxMessageSize h < 2 ^ 31" "multiDataDelimiter \<notin> set (hi_role h)"
  shows "helloFields (Join multiDataDelimiter (hello_wire h)) = Some h"
proof -
  have "ParseUint (dec_digits (nat (hi_maxMessageSize h))) 31 = Some (of_nat (nat (hi_maxMessageSize h)))"
    using assms by (simp add: ParseUint_dec_digits nat_less_iff)
  moreover have "uint (of_nat (nat (hi_maxMessageSize h)) :: uint64) = hi_maxMessageSize h"
    using assms by (simp add: uint_of_nat_small nat_less_iff del: of_nat_nat)
  moreover from this have "(of_nat (nat (hi_maxMessageSize h)) :: uint64) \<noteq> 0"
    using assms(1) by force
  ultimately show ?thesis
    using assms Split_wire [of "hello_wire h"]
    by (simp add: helloFields_def hello_wire_def separable_def)
qed

lemma respDataToValues_wire:
  "vs \<noteq> [] \<Longrightarrow> respDataToValues (Join multiDataDelimiter (map FormatUint vs)) = Some vs"
  by (simp add: respDataToValues_eq Split_wire separable_def list_all_iff mapM_map_Some [where h = id, simplified])

subsection \<open>Properties\<close>

lemma ok_response_parsers:
  "parseResponse (ok_response fs) = map_sum id success (or_corrupted (ParseUint (Join multiDataDelimiter fs) 64))"
  "parseMultiResponse (ok_response fs) =
     map_sum id success (or_corrupted (respDataToValues (Join multiDataDelimiter fs)))"
  "parseRateLimitResponse (ok_response fs) =
     map_sum id success (or_corrupted (rateLimitFields (Join multiDataDelimiter fs)))"
  "parseQuotaAcquireResponse (ok_response fs) =
     map_sum id success (or_corrupted (quotaAcquireFields (Join multiDataDelimiter fs)))"
  "parseQuotaInfoResponse (ok_response fs) =
     map_sum id success (or_corrupted (quotaInfoFields (Join multiDataDelimiter fs)))"
  "parseScanResponse (ok_response fs) =
     map_sum id success (or_corrupted (scanFields (Join multiDataDelimiter fs)))"
  "parseLimitEventResponse (ok_response fs) =
     map_sum id success (or_corrupted (limitEventFields (Join multiDataDelimiter fs)))"
  "parseQuotaEventResponse (ok_response fs) =
     map_sum id success (or_corrupted (quotaEventFields (Join multiDataDelimiter fs)))"
  "parseHelloResponse (ok_response fs) =
     map_sum id success (or_corrupted (helloFields (Join multiDataDelimiter fs)))"
  by (simp_all only: ok_response_def single.status_ok multi.status_ok rateLimit.status_ok
    quotaAcq.status_ok quotaInf.status_ok scanResp.status_ok limitEv.status_ok quotaEv.status_ok
    hello.status_ok)

lemmas wire_fields = rateLimitFields_wire quotaAcquireFields_wire quotaInfoFields_wire scanFields_wire
  limitEventFields_wire quotaEventFields_wire helloFields_wire respDataToValues_wire



text \<open>C23: The index-juggling loop that reads a list of values is exactly "split at the delimiter and
  parse every part": a response is accepted when every part is a 64-bit decimal number, and then the
  values come in order; one bad part, or an empty one, makes the whole response corrupted.\<close>

theorem multi_response_values:
  "parseMultiResponse (frameStatusOK @ respDelimiter # data) =
     (case mapM (\<lambda>part. ParseUint part 64) (Split data multiDataDelimiter) of
        None \<Rightarrow> corrupted
      | Some vs \<Rightarrow> Inr (success vs))"
  by (simp add: multi.status_ok respDataToValues_eq split: option.splits)

text \<open>What every parser promises its caller about any response at all.\<close>

definition classified :: "(bytes \<Rightarrow> go_error + 'v parsed) \<Rightarrow> bool" where
  "classified parse \<longleftrightarrow>
     (\<forall>resp. (case parse resp of
        Inl e \<Rightarrow> e = Sentinel ErrCorruptedResponse \<or> e = Sentinel ErrUnknownRespStatus
      | Inr r \<Rightarrow> (p_status r = ResponseStatusSuccess \<and> p_err r = None) \<or>
          (p_status r = ResponseStatusError \<and>
            (p_err r = Some (Sentinel ErrCorruptedResponse) \<or>
             (\<exists>c m. p_err r = Some (ProtocolError c m) \<and> unat c \<le> 9999)))))"

context response_parser
begin

lemma parser_classified:
  assumes "\<And>data. (\<exists>v. ok_branch data = Inr v) \<or> ok_branch data = corrupted"
  shows "classified parse"
  unfolding classified_def
proof
  fix resp
  show "case parse resp of
      Inl e \<Rightarrow> e = Sentinel ErrCorruptedResponse \<or> e = Sentinel ErrUnknownRespStatus
    | Inr r \<Rightarrow> (p_status r = ResponseStatusSuccess \<and> p_err r = None) \<or>
        (p_status r = ResponseStatusError \<and>
          (p_err r = Some (Sentinel ErrCorruptedResponse) \<or>
           (\<exists>c m. p_err r = Some (ProtocolError c m) \<and> unat c \<le> 9999)))"
  proof (cases rule: response_cases [of resp])
    case (ok data)
    then show ?thesis using assms [of data] by auto
  next
    case (err data)
    then show ?thesis using parseError_result [of data] by auto
  qed simp_all
qed

end

lemma or_corrupted_cases: "(\<exists>v. or_corrupted x = Inr v) \<or> or_corrupted x = corrupted"
  by (cases x) auto


end
