(* ===== verification/Commands.thy ===== *)
theory Commands
  imports Go_Strings Response
begin

text \<open>
  The requests of the client (the writers of \<^verbatim>\<open>client.go\<close> and \<^verbatim>\<open>inspect.go\<close>): each appends the words
  of a command, separated by single spaces, to a \<^verbatim>\<open>bytes.Buffer\<close>. A buffer is the string of bytes
  written so far. The theorems say which words the server reads back when it splits a request at
  the spaces, and that two different commands are never written the same way.
\<close>

subsection \<open>Names of commands\<close>

definition CommandIncr :: string where
  "CommandIncr = ''INCR''"

definition CommandGet :: string where
  "CommandGet = ''GET''"

definition CommandDel :: string where
  "CommandDel = ''DEL''"

definition CommandMDel :: string where
  "CommandMDel = ''MDEL''"

definition CommandWatch :: string where
  "CommandWatch = ''WATCH''"

definition CommandRLimit :: string where
  "CommandRLimit = ''RLIMIT''"

definition CommandStream :: string where
  "CommandStream = ''STREAM''"

definition CommandPStream :: string where
  "CommandPStream = ''PSTREAM''"

definition CommandQuota :: string where
  "CommandQuota = ''QUOTA''"

definition CommandQStream :: string where
  "CommandQStream = ''QSTREAM''"

definition CommandQPStream :: string where
  "CommandQPStream = ''QPSTREAM''"

definition CommandScan :: string where
  "CommandScan = ''SCAN''"

definition CommandPScan :: string where
  "CommandPScan = ''PSCAN''"

definition CommandFlushDB :: string where
  "CommandFlushDB = ''FLUSHDB''"

definition CommandTruncate :: string where
  "CommandTruncate = ''TRUNCATE''"

definition CommandHello :: string where
  "CommandHello = ''HELLO''"

definition CommandInspect :: string where
  "CommandInspect = ''INSPECT''"

definition CommandAuth :: string where
  "CommandAuth = ''AUTH''"

definition RLimitAlgorithmFW :: string where
  "RLimitAlgorithmFW = ''FW''"

definition RLimitAlgorithmSW :: string where
  "RLimitAlgorithmSW = ''SW''"

definition RLimitAlgorithmTB :: string where
  "RLimitAlgorithmTB = ''TB''"

definition ProtocolVersion :: uint64 where
  "ProtocolVersion = 1"

definition ScanCursorInitial :: string where
  "ScanCursorInitial = ''0''"

lemmas command_defs = CommandIncr_def CommandGet_def CommandDel_def CommandMDel_def CommandWatch_def
  CommandRLimit_def CommandStream_def CommandPStream_def CommandQuota_def CommandQStream_def
  CommandQPStream_def CommandScan_def CommandPScan_def CommandFlushDB_def CommandTruncate_def
  CommandHello_def CommandInspect_def CommandAuth_def RLimitAlgorithmFW_def RLimitAlgorithmSW_def
  RLimitAlgorithmTB_def

subsection \<open>Keys and buffers\<close>

record CappingKey =
  ck_Key :: string
  ck_Capping :: uint32

record LimitKey =
  lk_Key :: string
  lk_Window :: uint32

definition WriteString :: "string \<Rightarrow> bytes \<Rightarrow> bytes" where
  "WriteString s buf = buf @ s"

definition WriteByte :: "char \<Rightarrow> bytes \<Rightarrow> bytes" where
  "WriteByte c buf = buf @ [c]"

definition FormatUint32 :: "uint32 \<Rightarrow> string" where
  "FormatUint32 v = FormatUint (ucast v)"

subsection \<open>Writers\<close>

definition writeCommand :: "bytes \<Rightarrow> string \<Rightarrow> CappingKey \<Rightarrow> bytes" where
  "writeCommand buf command key =
     (let cappingStr = FormatUint32 (ck_Capping key);
          buf = WriteString command buf;
          buf = WriteByte CHR '' '' buf;
          buf = WriteString (ck_Key key) buf;
          buf = WriteByte CHR '' '' buf
      in WriteString cappingStr buf)"

text \<open>The loop of \<^verbatim>\<open>writeMultiCommand\<close>: a space after every key but the last.\<close>

fun writeMultiKeys :: "bytes \<Rightarrow> CappingKey list \<Rightarrow> bytes" where
  "writeMultiKeys buf [] = buf"
| "writeMultiKeys buf (key # ks) =
     (let cappingStr = FormatUint32 (ck_Capping key);
          buf = WriteString (ck_Key key) buf;
          buf = WriteByte CHR '' '' buf;
          buf = WriteString cappingStr buf;
          buf = (if ks \<noteq> [] then WriteByte CHR '' '' buf else buf)
      in writeMultiKeys buf ks)"

definition writeMultiCommand :: "bytes \<Rightarrow> string \<Rightarrow> CappingKey list \<Rightarrow> bytes" where
  "writeMultiCommand buf command ks =
     (let buf = WriteString command buf;
          buf = WriteByte CHR '' '' buf
      in writeMultiKeys buf ks)"

definition writeRLimitWindowCommand :: "bytes \<Rightarrow> string \<Rightarrow> LimitKey \<Rightarrow> uint32 \<Rightarrow> bytes" where
  "writeRLimitWindowCommand buf algorithm key limit =
     (let limitStr = FormatUint32 limit;
          windowStr = FormatUint32 (lk_Window key);
          buf = WriteString CommandRLimit buf;
          buf = WriteByte CHR '' '' buf;
          buf = WriteString algorithm buf;
          buf = WriteByte CHR '' '' buf;
          buf = WriteString (lk_Key key) buf;
          buf = WriteByte CHR '' '' buf;
          buf = WriteString limitStr buf;
          buf = WriteByte CHR '' '' buf
      in WriteString windowStr buf)"

definition writeRLimitTokenBucketCommand :: "bytes \<Rightarrow> LimitKey \<Rightarrow> uint32 \<Rightarrow> uint32 \<Rightarrow> bytes" where
  "writeRLimitTokenBucketCommand buf key capacity refillAmount =
     (let capacityStr = FormatUint32 capacity;
          refillAmountStr = FormatUint32 refillAmount;
          refillWindowStr = FormatUint32 (lk_Window key);
          buf = WriteString CommandRLimit buf;
          buf = WriteByte CHR '' '' buf;
          buf = WriteString RLimitAlgorithmTB buf;
          buf = WriteByte CHR '' '' buf;
          buf = WriteString (lk_Key key) buf;
          buf = WriteByte CHR '' '' buf;
          buf = WriteString capacityStr buf;
          buf = WriteByte CHR '' '' buf;
          buf = WriteString refillAmountStr buf;
          buf = WriteByte CHR '' '' buf
      in WriteString refillWindowStr buf)"

text \<open>The variadic \<^verbatim>\<open>ttl\<close> of the quota commands is a list; only its first element is written.\<close>

definition writeTTL :: "bytes \<Rightarrow> uint32 list \<Rightarrow> bytes" where
  "writeTTL buf ttl =
     (if 0 < length ttl
      then let ttlStr = FormatUint32 (ttl ! 0);
               buf = WriteByte CHR '' '' buf
           in WriteString ttlStr buf
      else buf)"

definition writeQuotaAcquireCommand ::
    "bytes \<Rightarrow> string \<Rightarrow> uint32 \<Rightarrow> string \<Rightarrow> uint32 list \<Rightarrow> bytes" where
  "writeQuotaAcquireCommand buf name amount clientID ttl =
     (let amountStr = FormatUint32 amount;
          buf = WriteString CommandQuota buf;
          buf = WriteString '' ACQ '' buf;
          buf = WriteString name buf;
          buf = WriteByte CHR '' '' buf;
          buf = WriteString amountStr buf;
          buf = WriteByte CHR '' '' buf;
          buf = WriteString clientID buf
      in writeTTL buf ttl)"

definition writeQuotaAcquireLeaseCommand ::
    "bytes \<Rightarrow> string \<Rightarrow> uint32 \<Rightarrow> uint32 \<Rightarrow> string \<Rightarrow> uint32 list \<Rightarrow> bytes" where
  "writeQuotaAcquireLeaseCommand buf name limit amount clientID ttl =
     (let limitStr = FormatUint32 limit;
          amountStr = FormatUint32 amount;
          buf = WriteString CommandQuota buf;
          buf = WriteString '' ACQL '' buf;
          buf = WriteString name buf;
          buf = WriteByte CHR '' '' buf;
          buf = WriteString limitStr buf;
          buf = WriteByte CHR '' '' buf;
          buf = WriteString amountStr buf;
          buf = WriteByte CHR '' '' buf;
          buf = WriteString clientID buf
      in writeTTL buf ttl)"

definition writeQuotaAcquireNCommand :: "bytes \<Rightarrow> string \<Rightarrow> string \<Rightarrow> uint32 list \<Rightarrow> bytes" where
  "writeQuotaAcquireNCommand buf name clientID ttl =
     (let buf = WriteString CommandQuota buf;
          buf = WriteString '' ACQN '' buf;
          buf = WriteString name buf;
          buf = WriteByte CHR '' '' buf;
          buf = WriteString clientID buf
      in writeTTL buf ttl)"

definition writeQuotaSetCommand :: "bytes \<Rightarrow> string \<Rightarrow> uint32 \<Rightarrow> bytes" where
  "writeQuotaSetCommand buf name limit =
     (let limitStr = FormatUint32 limit;
          buf = WriteString CommandQuota buf;
          buf = WriteString '' SET '' buf;
          buf = WriteString name buf;
          buf = WriteByte CHR '' '' buf
      in WriteString limitStr buf)"

definition writeQuotaSetNCommand :: "bytes \<Rightarrow> string \<Rightarrow> uint32 \<Rightarrow> uint32 \<Rightarrow> bytes" where
  "writeQuotaSetNCommand buf name limit clients =
     (let limitStr = FormatUint32 limit;
          clientsStr = FormatUint32 clients;
          buf = WriteString CommandQuota buf;
          buf = WriteString '' SETN '' buf;
          buf = WriteString name buf;
          buf = WriteByte CHR '' '' buf;
          buf = WriteString limitStr buf;
          buf = WriteByte CHR '' '' buf
      in WriteString clientsStr buf)"

definition writeQuotaReleaseCommand :: "bytes \<Rightarrow> string \<Rightarrow> string \<Rightarrow> bytes" where
  "writeQuotaReleaseCommand buf name clientID =
     (let buf = WriteString CommandQuota buf;
          buf = WriteString '' REL '' buf;
          buf = WriteString name buf;
          buf = WriteByte CHR '' '' buf
      in WriteString clientID buf)"

definition writeQuotaDeleteCommand :: "bytes \<Rightarrow> string \<Rightarrow> bytes" where
  "writeQuotaDeleteCommand buf name =
     (let buf = WriteString CommandQuota buf;
          buf = WriteString '' DEL '' buf
      in WriteString name buf)"

definition writeQuotaInfoCommand :: "bytes \<Rightarrow> string \<Rightarrow> bytes" where
  "writeQuotaInfoCommand buf name =
     (let buf = WriteString CommandQuota buf;
          buf = WriteString '' INF '' buf
      in WriteString name buf)"

definition writeScanCommand :: "bytes \<Rightarrow> string \<Rightarrow> uint32 \<Rightarrow> bytes" where
  "writeScanCommand buf cursor count =
     (let cursor = (if cursor = '''' then ScanCursorInitial else cursor);
          buf = WriteString CommandScan buf;
          buf = WriteByte CHR '' '' buf;
          buf = WriteString cursor buf;
          buf = WriteByte CHR '' '' buf
      in WriteString (FormatUint32 count) buf)"

definition writePScanCommand :: "bytes \<Rightarrow> string \<Rightarrow> string \<Rightarrow> uint32 \<Rightarrow> bytes" where
  "writePScanCommand buf prefix cursor count =
     (let cursor = (if cursor = '''' then ScanCursorInitial else cursor);
          buf = WriteString CommandPScan buf;
          buf = WriteByte CHR '' '' buf;
          buf = WriteString prefix buf;
          buf = WriteByte CHR '' '' buf;
          buf = WriteString cursor buf;
          buf = WriteByte CHR '' '' buf
      in WriteString (FormatUint32 count) buf)"

text \<open>The request bodies that \<^verbatim>\<open>PStream\<close> and \<^verbatim>\<open>QPStream\<close> write in place.\<close>

definition writePrefixCommand :: "bytes \<Rightarrow> string \<Rightarrow> string \<Rightarrow> bytes" where
  "writePrefixCommand buf command prefix =
     (let buf = WriteString command buf;
          buf = WriteByte CHR '' '' buf
      in WriteString prefix buf)"

definition writeInspectCommand :: "bytes \<Rightarrow> string \<Rightarrow> bytes" where
  "writeInspectCommand buf sect =
     (let buf = WriteString CommandInspect buf
      in if sect \<noteq> '''' then WriteString sect (WriteByte CHR '' '' buf) else buf)"

definition valuesToBools :: "uint64 list \<Rightarrow> bool list" where
  "valuesToBools vals = map (\<lambda>v. v = 1) vals"

subsection \<open>What the writers append\<close>

text \<open>Every writer appends its words joined by single spaces, whatever the words are.\<close>

abbreviation spaced :: "bytes list \<Rightarrow> bytes" where
  "spaced ws \<equiv> Join CHR '' '' ws"

lemma writer_primitives [simp]:
  "WriteString s buf = buf @ s"
  "WriteByte c buf = buf @ [c]"
  by (simp_all add: WriteString_def WriteByte_def)

lemma writeCommand_words:
  "writeCommand buf command key = buf @ spaced [command, ck_Key key, FormatUint32 (ck_Capping key)]"
  by (simp add: writeCommand_def Let_def)

definition key_words :: "CappingKey \<Rightarrow> bytes list" where
  "key_words key = [ck_Key key, FormatUint32 (ck_Capping key)]"

lemma writeMultiKeys_words: "writeMultiKeys buf ks = buf @ spaced (concat (map key_words ks))"
proof (induction ks arbitrary: buf)
  case (Cons key ks)
  then show ?case
    by (cases ks) (auto simp: Let_def key_words_def)
qed simp

lemma writeMultiCommand_words:
  "writeMultiCommand buf command ks =
     buf @ spaced (command # (if ks = [] then [''''] else concat (map key_words ks)))"
  by (cases ks) (auto simp: writeMultiCommand_def Let_def writeMultiKeys_words key_words_def)

lemma writeRLimitWindowCommand_words:
  "writeRLimitWindowCommand buf algorithm key limit =
     buf @ spaced [CommandRLimit, algorithm, lk_Key key, FormatUint32 limit, FormatUint32 (lk_Window key)]"
  by (simp add: writeRLimitWindowCommand_def Let_def)

lemma writeRLimitTokenBucketCommand_words:
  "writeRLimitTokenBucketCommand buf key capacity refillAmount =
     buf @ spaced [CommandRLimit, RLimitAlgorithmTB, lk_Key key, FormatUint32 capacity,
       FormatUint32 refillAmount, FormatUint32 (lk_Window key)]"
  by (simp add: writeRLimitTokenBucketCommand_def Let_def)

definition ttl_words :: "uint32 list \<Rightarrow> bytes list" where
  "ttl_words ttl = map FormatUint32 (take 1 ttl)"

lemma writeTTL_words: "writeTTL (buf @ spaced ws) ttl = buf @ spaced (ws @ ttl_words ttl)" if "ws \<noteq> []"
  using that
proof (induction ws arbitrary: buf rule: induct_list012)
  case (3 w v ws)
  show ?case
    using "3.IH"(2) [of "buf @ w @ CHR '' '' # []"] by simp
qed (cases ttl; auto simp: writeTTL_def ttl_words_def Let_def)+

lemma writeQuotaAcquireCommand_words:
  "writeQuotaAcquireCommand buf name amount clientID ttl =
     buf @ spaced ([CommandQuota, ''ACQ'', name, FormatUint32 amount, clientID] @ ttl_words ttl)"
  using writeTTL_words [of "[CommandQuota, ''ACQ'', name, FormatUint32 amount, clientID]" buf ttl]
  by (simp add: writeQuotaAcquireCommand_def Let_def)

lemma writeQuotaAcquireLeaseCommand_words:
  "writeQuotaAcquireLeaseCommand buf name limit amount clientID ttl =
     buf @ spaced ([CommandQuota, ''ACQL'', name, FormatUint32 limit, FormatUint32 amount, clientID] @
       ttl_words ttl)"
  using writeTTL_words
    [of "[CommandQuota, ''ACQL'', name, FormatUint32 limit, FormatUint32 amount, clientID]" buf ttl]
  by (simp add: writeQuotaAcquireLeaseCommand_def Let_def)

lemma writeQuotaAcquireNCommand_words:
  "writeQuotaAcquireNCommand buf name clientID ttl =
     buf @ spaced ([CommandQuota, ''ACQN'', name, clientID] @ ttl_words ttl)"
  using writeTTL_words [of "[CommandQuota, ''ACQN'', name, clientID]" buf ttl]
  by (simp add: writeQuotaAcquireNCommand_def Let_def)

lemma writeQuota_words:
  "writeQuotaSetCommand buf name limit = buf @ spaced [CommandQuota, ''SET'', name, FormatUint32 limit]"
  "writeQuotaSetNCommand buf name limit clients =
     buf @ spaced [CommandQuota, ''SETN'', name, FormatUint32 limit, FormatUint32 clients]"
  "writeQuotaReleaseCommand buf name clientID = buf @ spaced [CommandQuota, ''REL'', name, clientID]"
  "writeQuotaDeleteCommand buf name = buf @ spaced [CommandQuota, ''DEL'', name]"
  "writeQuotaInfoCommand buf name = buf @ spaced [CommandQuota, ''INF'', name]"
  by (simp_all add: writeQuotaSetCommand_def writeQuotaSetNCommand_def writeQuotaReleaseCommand_def
    writeQuotaDeleteCommand_def writeQuotaInfoCommand_def Let_def)

lemma writeScan_words:
  "writeScanCommand buf cursor count =
     buf @ spaced [CommandScan, if cursor = '''' then ScanCursorInitial else cursor, FormatUint32 count]"
  "writePScanCommand buf prefix cursor count =
     buf @ spaced [CommandPScan, prefix, if cursor = '''' then ScanCursorInitial else cursor,
       FormatUint32 count]"
  by (simp_all add: writeScanCommand_def writePScanCommand_def Let_def)

lemma writePrefixCommand_words: "writePrefixCommand buf command prefix = buf @ spaced [command, prefix]"
  by (simp add: writePrefixCommand_def Let_def)

lemma writeInspectCommand_words:
  "writeInspectCommand buf sect = buf @ spaced (CommandInspect # (if sect = '''' then [] else [sect]))"
  by (simp add: writeInspectCommand_def Let_def)

lemmas writer_words = writeCommand_words writeMultiCommand_words writeRLimitWindowCommand_words
  writeRLimitTokenBucketCommand_words writeQuotaAcquireCommand_words
  writeQuotaAcquireLeaseCommand_words writeQuotaAcquireNCommand_words writeQuota_words
  writeScan_words writePrefixCommand_words writeInspectCommand_words

subsection \<open>Requests\<close>

text \<open>
  The requests the client can send, with the writer each operation calls on an empty buffer; and a
  reader that splits a request at the spaces and recognises it, the reference for what the words of
  a request mean. A request is \<open>sendable\<close> when its names contain no space; an empty scan cursor and
  an empty list of keys have other requests' text.
\<close>

datatype request =
    RIncr CappingKey | RGet CappingKey | RWatch CappingKey | RDel CappingKey
  | RMDel "CappingKey list"
  | RFixedWindow LimitKey uint32 | RSlidingWindow LimitKey uint32
  | RTokenBucket LimitKey uint32 uint32
  | RQuotaAcquire string uint32 string "uint32 option"
  | RQuotaAcquireLease string uint32 uint32 string "uint32 option"
  | RQuotaAcquireN string string "uint32 option"
  | RQuotaSet string uint32 | RQuotaSetN string uint32 uint32
  | RQuotaRelease string string | RQuotaDelete string | RQuotaInfo string
  | RScan string uint32 | RPScan string string uint32
  | RStream | RPStream string | RQStream | RQPStream string
  | RFlushDB | RTruncate | RInspect string

definition ttl_args :: "uint32 option \<Rightarrow> uint32 list" where
  "ttl_args t = (case t of None \<Rightarrow> [] | Some v \<Rightarrow> [v])"

fun write_request :: "request \<Rightarrow> bytes" where
  "write_request (RIncr k) = writeCommand [] CommandIncr k"
| "write_request (RGet k) = writeCommand [] CommandGet k"
| "write_request (RWatch k) = writeCommand [] CommandWatch k"
| "write_request (RDel k) = writeCommand [] CommandDel k"
| "write_request (RMDel ks) = writeMultiCommand [] CommandMDel ks"
| "write_request (RFixedWindow k l) = writeRLimitWindowCommand [] RLimitAlgorithmFW k l"
| "write_request (RSlidingWindow k l) = writeRLimitWindowCommand [] RLimitAlgorithmSW k l"
| "write_request (RTokenBucket k c r) = writeRLimitTokenBucketCommand [] k c r"
| "write_request (RQuotaAcquire n a c t) = writeQuotaAcquireCommand [] n a c (ttl_args t)"
| "write_request (RQuotaAcquireLease n l a c t) = writeQuotaAcquireLeaseCommand [] n l a c (ttl_args t)"
| "write_request (RQuotaAcquireN n c t) = writeQuotaAcquireNCommand [] n c (ttl_args t)"
| "write_request (RQuotaSet n l) = writeQuotaSetCommand [] n l"
| "write_request (RQuotaSetN n l c) = writeQuotaSetNCommand [] n l c"
| "write_request (RQuotaRelease n c) = writeQuotaReleaseCommand [] n c"
| "write_request (RQuotaDelete n) = writeQuotaDeleteCommand [] n"
| "write_request (RQuotaInfo n) = writeQuotaInfoCommand [] n"
| "write_request (RScan c n) = writeScanCommand [] c n"
| "write_request (RPScan p c n) = writePScanCommand [] p c n"
| "write_request RStream = CommandStream"
| "write_request (RPStream p) = writePrefixCommand [] CommandPStream p"
| "write_request RQStream = CommandQStream"
| "write_request (RQPStream p) = writePrefixCommand [] CommandQPStream p"
| "write_request RFlushDB = CommandFlushDB"
| "write_request RTruncate = CommandTruncate"
| "write_request (RInspect s) = writeInspectCommand [] s"

definition no_space :: "string \<Rightarrow> bool" where
  "no_space s \<longleftrightarrow> CHR '' '' \<notin> set s"

fun sendable :: "request \<Rightarrow> bool" where
  "sendable (RIncr k) = no_space (ck_Key k)"
| "sendable (RGet k) = no_space (ck_Key k)"
| "sendable (RWatch k) = no_space (ck_Key k)"
| "sendable (RDel k) = no_space (ck_Key k)"
| "sendable (RMDel ks) = (ks \<noteq> [] \<and> list_all (\<lambda>k. no_space (ck_Key k)) ks)"
| "sendable (RFixedWindow k l) = no_space (lk_Key k)"
| "sendable (RSlidingWindow k l) = no_space (lk_Key k)"
| "sendable (RTokenBucket k c r) = no_space (lk_Key k)"
| "sendable (RQuotaAcquire n a c t) = (no_space n \<and> no_space c)"
| "sendable (RQuotaAcquireLease n l a c t) = (no_space n \<and> no_space c)"
| "sendable (RQuotaAcquireN n c t) = (no_space n \<and> no_space c)"
| "sendable (RQuotaSet n l) = no_space n"
| "sendable (RQuotaSetN n l c) = no_space n"
| "sendable (RQuotaRelease n c) = (no_space n \<and> no_space c)"
| "sendable (RQuotaDelete n) = no_space n"
| "sendable (RQuotaInfo n) = no_space n"
| "sendable (RScan c n) = (c \<noteq> [] \<and> no_space c)"
| "sendable (RPScan p c n) = (no_space p \<and> c \<noteq> [] \<and> no_space c)"
| "sendable (RPStream p) = no_space p"
| "sendable (RQPStream p) = no_space p"
| "sendable (RInspect s) = no_space s"
| "sendable _ = True"

definition read_u32 :: "bytes \<Rightarrow> uint32 option" where
  "read_u32 s = map_option ucast (ParseUint s 32)"

fun read_keys :: "bytes list \<Rightarrow> CappingKey list option" where
  "read_keys [] = Some []"
| "read_keys [w] = None"
| "read_keys (k # n # ws) = do {
     v \<leftarrow> read_u32 n;
     ks \<leftarrow> read_keys ws;
     Some (\<lparr>ck_Key = k, ck_Capping = v\<rparr> # ks)
   }"

definition read_key :: "bytes list \<Rightarrow> CappingKey option" where
  "read_key ws = (case read_keys ws of Some [k] \<Rightarrow> Some k | _ \<Rightarrow> None)"

definition read_ttl :: "bytes list \<Rightarrow> uint32 option option" where
  "read_ttl ws =
     (case ws of [] \<Rightarrow> Some None | [w] \<Rightarrow> map_option Some (read_u32 w) | _ \<Rightarrow> None)"

fun read_rlimit :: "bytes list \<Rightarrow> request option" where
  "read_rlimit [a, k, l, w] = do {
     limit \<leftarrow> read_u32 l;
     window \<leftarrow> read_u32 w;
     (if a = ''FW'' then Some (RFixedWindow \<lparr>lk_Key = k, lk_Window = window\<rparr> limit)
      else if a = ''SW'' then Some (RSlidingWindow \<lparr>lk_Key = k, lk_Window = window\<rparr> limit)
      else None)
   }"
| "read_rlimit [a, k, c, r, w] = do {
     capacity \<leftarrow> read_u32 c;
     refill \<leftarrow> read_u32 r;
     window \<leftarrow> read_u32 w;
     (if a = ''TB'' then Some (RTokenBucket \<lparr>lk_Key = k, lk_Window = window\<rparr> capacity refill)
      else None)
   }"
| "read_rlimit _ = None"

definition read_quota :: "bytes list \<Rightarrow> request option" where
  "read_quota ws =
     (case ws of
        verb # name # args \<Rightarrow>
          if verb = ''ACQ'' then
            (case args of a # c # ttl \<Rightarrow> do {
               amount \<leftarrow> read_u32 a; t \<leftarrow> read_ttl ttl; Some (RQuotaAcquire name amount c t) }
             | _ \<Rightarrow> None)
          else if verb = ''ACQL'' then
            (case args of l # a # c # ttl \<Rightarrow> do {
               limit \<leftarrow> read_u32 l; amount \<leftarrow> read_u32 a; t \<leftarrow> read_ttl ttl;
               Some (RQuotaAcquireLease name limit amount c t) }
             | _ \<Rightarrow> None)
          else if verb = ''ACQN'' then
            (case args of c # ttl \<Rightarrow> do { t \<leftarrow> read_ttl ttl; Some (RQuotaAcquireN name c t) }
             | _ \<Rightarrow> None)
          else if verb = ''SET'' then
            (case args of [l] \<Rightarrow> do { limit \<leftarrow> read_u32 l; Some (RQuotaSet name limit) } | _ \<Rightarrow> None)
          else if verb = ''SETN'' then
            (case args of [l, n] \<Rightarrow> do {
               limit \<leftarrow> read_u32 l; clients \<leftarrow> read_u32 n; Some (RQuotaSetN name limit clients) }
             | _ \<Rightarrow> None)
          else if verb = ''REL'' then (case args of [c] \<Rightarrow> Some (RQuotaRelease name c) | _ \<Rightarrow> None)
          else if verb = ''DEL'' then (case args of [] \<Rightarrow> Some (RQuotaDelete name) | _ \<Rightarrow> None)
          else if verb = ''INF'' then (case args of [] \<Rightarrow> Some (RQuotaInfo name) | _ \<Rightarrow> None)
          else None
      | _ \<Rightarrow> None)"

definition read_words :: "bytes list \<Rightarrow> request option" where
  "read_words ws =
     (case ws of
        [] \<Rightarrow> None
      | c # args \<Rightarrow>
          if c = ''INCR'' then map_option RIncr (read_key args)
          else if c = ''GET'' then map_option RGet (read_key args)
          else if c = ''WATCH'' then map_option RWatch (read_key args)
          else if c = ''DEL'' then map_option RDel (read_key args)
          else if c = ''MDEL'' then map_option RMDel (read_keys args)
          else if c = ''RLIMIT'' then read_rlimit args
          else if c = ''QUOTA'' then read_quota args
          else if c = ''SCAN'' then
            (case args of [k, n] \<Rightarrow> map_option (RScan k) (read_u32 n) | _ \<Rightarrow> None)
          else if c = ''PSCAN'' then
            (case args of [p, k, n] \<Rightarrow> map_option (RPScan p k) (read_u32 n) | _ \<Rightarrow> None)
          else if c = ''STREAM'' \<and> args = [] then Some RStream
          else if c = ''QSTREAM'' \<and> args = [] then Some RQStream
          else if c = ''PSTREAM'' then (case args of [p] \<Rightarrow> Some (RPStream p) | _ \<Rightarrow> None)
          else if c = ''QPSTREAM'' then (case args of [p] \<Rightarrow> Some (RQPStream p) | _ \<Rightarrow> None)
          else if c = ''FLUSHDB'' \<and> args = [] then Some RFlushDB
          else if c = ''TRUNCATE'' \<and> args = [] then Some RTruncate
          else if c = ''INSPECT'' then
            (case args of [] \<Rightarrow> Some (RInspect '''') | [s] \<Rightarrow> Some (RInspect s) | _ \<Rightarrow> None)
          else None)"

definition read_request :: "bytes \<Rightarrow> request option" where
  "read_request req = read_words (Split req CHR '' '')"

lemma read_u32_FormatUint32 [simp]: "read_u32 (FormatUint32 v) = Some v"
  by (simp add: read_u32_def FormatUint32_def wire_simps)

lemma no_space_FormatUint32 [simp]: "CHR '' '' \<notin> set (FormatUint32 v)"
  by (simp add: FormatUint32_def FormatUint_def)

lemma read_keys_words [simp]: "read_keys (concat (map key_words ks)) = Some ks"
  by (induction ks) (auto simp: key_words_def)

lemma read_ttl_words [simp]: "read_ttl (ttl_words (ttl_args t)) = Some t"
  by (cases t) (auto simp: read_ttl_def ttl_words_def ttl_args_def)

lemma ttl_words_no_space: "w \<in> set (ttl_words ts) \<Longrightarrow> CHR '' '' \<notin> set w"
  by (auto simp: ttl_words_def)

lemma concat_key_words_eq_Nil [simp]: "concat (map key_words ks) = [] \<longleftrightarrow> ks = []"
  by (cases ks) (auto simp: key_words_def)

lemma read_spaced:
  "ws \<noteq> [] \<Longrightarrow> list_all no_space ws \<Longrightarrow> read_request (spaced ws) = read_words ws"
  unfolding read_request_def by (subst Split_Join) (auto simp: list_all_iff no_space_def)

fun request_words :: "request \<Rightarrow> bytes list" where
  "request_words (RIncr k) = ''INCR'' # key_words k"
| "request_words (RGet k) = ''GET'' # key_words k"
| "request_words (RWatch k) = ''WATCH'' # key_words k"
| "request_words (RDel k) = ''DEL'' # key_words k"
| "request_words (RMDel ks) = ''MDEL'' # (if ks = [] then [''''] else concat (map key_words ks))"
| "request_words (RFixedWindow k l) = [''RLIMIT'', ''FW'', lk_Key k, FormatUint32 l, FormatUint32 (lk_Window k)]"
| "request_words (RSlidingWindow k l) = [''RLIMIT'', ''SW'', lk_Key k, FormatUint32 l, FormatUint32 (lk_Window k)]"
| "request_words (RTokenBucket k c r) =
     [''RLIMIT'', ''TB'', lk_Key k, FormatUint32 c, FormatUint32 r, FormatUint32 (lk_Window k)]"
| "request_words (RQuotaAcquire n a c t) =
     [''QUOTA'', ''ACQ'', n, FormatUint32 a, c] @ ttl_words (ttl_args t)"
| "request_words (RQuotaAcquireLease n l a c t) =
     [''QUOTA'', ''ACQL'', n, FormatUint32 l, FormatUint32 a, c] @ ttl_words (ttl_args t)"
| "request_words (RQuotaAcquireN n c t) = [''QUOTA'', ''ACQN'', n, c] @ ttl_words (ttl_args t)"
| "request_words (RQuotaSet n l) = [''QUOTA'', ''SET'', n, FormatUint32 l]"
| "request_words (RQuotaSetN n l c) = [''QUOTA'', ''SETN'', n, FormatUint32 l, FormatUint32 c]"
| "request_words (RQuotaRelease n c) = [''QUOTA'', ''REL'', n, c]"
| "request_words (RQuotaDelete n) = [''QUOTA'', ''DEL'', n]"
| "request_words (RQuotaInfo n) = [''QUOTA'', ''INF'', n]"
| "request_words (RScan c n) = [''SCAN'', if c = [] then ''0'' else c, FormatUint32 n]"
| "request_words (RPScan p c n) = [''PSCAN'', p, if c = [] then ''0'' else c, FormatUint32 n]"
| "request_words RStream = [''STREAM'']"
| "request_words (RPStream p) = [''PSTREAM'', p]"
| "request_words RQStream = [''QSTREAM'']"
| "request_words (RQPStream p) = [''QPSTREAM'', p]"
| "request_words RFlushDB = [''FLUSHDB'']"
| "request_words RTruncate = [''TRUNCATE'']"
| "request_words (RInspect s) = ''INSPECT'' # (if s = [] then [] else [s])"

lemma write_request_words: "write_request r = spaced (request_words r)"
  by (cases r) (simp_all add: writer_words command_defs ScanCursorInitial_def key_words_def)

lemma sendable_words: "sendable r \<Longrightarrow> list_all no_space (request_words r)"
  by (cases r) (auto simp: list_all_iff no_space_def key_words_def dest: ttl_words_no_space)

lemma request_words_not_Nil: "request_words r \<noteq> []"
  by (cases r) auto

lemma read_words_request_words: "sendable r \<Longrightarrow> read_words (request_words r) = Some r"
  by (cases r) (auto simp: read_words_def read_quota_def read_key_def key_words_def)

lemma read_write_request: "sendable r \<Longrightarrow> read_request (write_request r) = Some r"
  by (simp add: write_request_words read_spaced request_words_not_Nil sendable_words
    read_words_request_words)

interpretation request_codec: codec write_request read_request sendable
  by unfold_locales (rule read_write_request)

subsection \<open>Properties\<close>

text \<open>The writers do not escape: a key with spaces is written as further arguments.\<close>

lemma keys_with_spaces:
  "write_request (RMDel [\<lparr>ck_Key = ''a 60 b'', ck_Capping = c\<rparr>]) =
   write_request (RMDel [\<lparr>ck_Key = ''a'', ck_Capping = 60\<rparr>, \<lparr>ck_Key = ''b'', ck_Capping = c\<rparr>])"
proof -
  have "FormatUint32 60 = ''60''"
    by (simp add: FormatUint32_def FormatUint_def dec_digits.simps wire_simps)
  then show ?thesis
    by (simp add: writer_words key_words_def)
qed



end
