(* ===== verification/Frames.thy ===== *)
theory Frames
  imports Network Commands
begin

text \<open>
  The frame layer of \<^verbatim>\<open>tcp_client.go\<close>: classification of connection errors and reading and writing of
  length-prefixed frames on a connection that may take and deliver bytes in pieces. The lemmas say what
  each operation does to the network (\<open>read_effect\<close>, \<open>write_effect\<close>), for every behaviour of the peer,
  and that a frame that was written and arrives in time is read back.
\<close>

subsection \<open>Constants\<close>

definition frameHeaderSize :: nat where
  "frameHeaderSize = 4"

definition maxFramePayloadSize :: uint64 where
  "maxFramePayloadSize = 2 ^ 32 - 1"

subsection \<open>Errors\<close>

definition isConnectionError :: "go_error option \<Rightarrow> bool" where
  "isConnectionError err =
     (case err of
        None \<Rightarrow> False
      | Some e \<Rightarrow>
          if errors_Is e EOF \<or> errors_Is e ErrUnexpectedEOF \<or> errors_Is e ErrShortWrite \<or>
             errors_Is e NetErrClosed
          then True
          else errors_As_net_Error e)"

definition normalizeConnectionError :: "go_error \<Rightarrow> go_error" where
  "normalizeConnectionError err =
     (if isConnectionError (Some err) then Errorf ''%w: %w'' [W (Sentinel ErrConnClosed), W err]
      else err)"

subsection \<open>Frames\<close>

text \<open>\<^verbatim>\<open>binary.BigEndian\<close> on 32-bit numbers.\<close>

definition byte_at :: "nat \<Rightarrow> uint32 \<Rightarrow> char" where
  "byte_at k v = char_of (unat v div 256 ^ k mod 256 :: nat)"

definition PutUint32 :: "uint32 \<Rightarrow> bytes" where
  "PutUint32 v = [byte_at 3 v, byte_at 2 v, byte_at 1 v, byte_at 0 v]"

definition Uint32 :: "bytes \<Rightarrow> uint32" where
  "Uint32 header = of_nat (foldl (\<lambda>n b. n * 256 + of_char b) 0 (take 4 header))"

function writeAll :: "nat \<Rightarrow> bytes \<Rightarrow> (world, unit) io" where
  "writeAll fd data w =
     (if data = [] then (Ok (), w)
      else case conn_Write fd data w of
             ((n, err), w') \<Rightarrow>
               (case err of
                  Some e \<Rightarrow> (Err e, w')
                | None \<Rightarrow>
                    if n = 0 then (Err (Sentinel ErrShortWrite), w')
                    else writeAll fd (drop n data) w'))"
  by pat_completeness auto
termination
  by (relation "measure (\<lambda>(fd, data, w). length data)") auto

definition writeFrame :: "nat \<Rightarrow> bytes \<Rightarrow> (world, unit) io" where
  "writeFrame fd payload =
     (if uint maxFramePayloadSize < int (length payload)
      then throw (Errorf ''%w: %d > %d''
        [W (Sentinel errFrameTooLarge), D (int (length payload)), D (uint maxFramePayloadSize)])
      else let header = PutUint32 (of_nat (length payload))
           in bindR (writeAll fd header) (\<lambda>_. writeAll fd payload))"

definition readFrameSize :: "nat \<Rightarrow> int \<Rightarrow> (world, nat) io" where
  "readFrameSize fd maxSize =
     bindR (ReadFull fd frameHeaderSize) (\<lambda>(header, err).
       case err of
         Some e \<Rightarrow> throw e
       | None \<Rightarrow>
           (let messageSize = Uint32 header
            in if word_of_int maxSize < messageSize
               then throw (Errorf ''%w: %d > %d''
                 [W (Sentinel errFrameTooLarge), D (uint messageSize), D maxSize])
               else ret (unat messageSize)))"

text \<open>
  Reads the next frame into the buffer; the message is the buffer's prefix. Slicing the buffer beyond
  its end panics.
\<close>

definition readFrameInto :: "nat \<Rightarrow> int \<Rightarrow> (bytes \<times> world, bytes) io" where
  "readFrameInto fd maxSize = (\<lambda>(buffer, w).
     case readFrameSize fd maxSize w of
       (Err e, w1) \<Rightarrow> (Err e, (buffer, w1))
     | (Panic p, w1) \<Rightarrow> (Panic p, (buffer, w1))
     | (Blocked, w1) \<Rightarrow> (Blocked, (buffer, w1))
     | (Ok messageSize, w1) \<Rightarrow>
         if length buffer < messageSize then (Panic ''slice bounds out of range'', (buffer, w1))
         else case ReadFull fd messageSize w1 of
                (Ok (bs, err), w2) \<Rightarrow>
                  (let buffer' = bs @ drop (length bs) buffer
                   in case err of
                        Some e \<Rightarrow> (Err e, (buffer', w2))
                      | None \<Rightarrow> (Ok (take messageSize buffer'), (buffer', w2)))
              | (Err e, w2) \<Rightarrow> (Err e, (buffer, w2))
              | (Panic p, w2) \<Rightarrow> (Panic p, (buffer, w2))
              | (Blocked, w2) \<Rightarrow> (Blocked, (buffer, w2)))"

subsection \<open>What reading a frame does to the network\<close>

text \<open>
  Reading touches only the clock and the incoming script of the connection: \<open>read_effect fd w w'\<close>.
\<close>

definition read_effect :: "nat \<Rightarrow> world \<Rightarrow> world \<Rightarrow> bool" where
  "read_effect fd w w' \<longleftrightarrow>
     (\<exists>t pre bs ins. w' = w\<lparr>now := t, conns := (conns w)(fd := (conns w fd)\<lparr>nc_in := ins\<rparr>)\<rparr> \<and>
        now w \<le> t \<and> (\<forall>d. nc_deadline (conns w fd) = Some d \<longrightarrow> t \<le> max (now w) d) \<and>
        nc_in (conns w fd) = pre @ ins \<and> map snd pre = map RxByte bs)"

lemma read_effect_refl [simp]: "read_effect fd w w"
  unfolding read_effect_def
  by (intro exI [of _ "now w"] exI [of _ "[]"] exI [of _ "[]"] exI [of _ "nc_in (conns w fd)"]) simp

lemma read_effect_trans:
  assumes "read_effect fd w w1" and "read_effect fd w1 w2"
  shows "read_effect fd w w2"
proof -
  obtain t pre bs ins where 1: "w1 = w\<lparr>now := t, conns := (conns w)(fd := (conns w fd)\<lparr>nc_in := ins\<rparr>)\<rparr>"
    "now w \<le> t" "\<forall>d. nc_deadline (conns w fd) = Some d \<longrightarrow> t \<le> max (now w) d"
    "nc_in (conns w fd) = pre @ ins" "map snd pre = map RxByte bs"
    using assms(1) unfolding read_effect_def by blast
  obtain t' pre' bs' ins' where 2: "w2 = w1\<lparr>now := t', conns := (conns w1)(fd := (conns w1 fd)\<lparr>nc_in := ins'\<rparr>)\<rparr>"
    "now w1 \<le> t'" "\<forall>d. nc_deadline (conns w1 fd) = Some d \<longrightarrow> t' \<le> max (now w1) d"
    "nc_in (conns w1 fd) = pre' @ ins'" "map snd pre' = map RxByte bs'"
    using assms(2) unfolding read_effect_def by blast
  show ?thesis
    unfolding read_effect_def
    by (intro exI [of _ t'] exI [of _ "pre @ pre'"] exI [of _ "bs @ bs'"] exI [of _ ins'])
      (use 1 2 in \<open>auto simp: max_def split: if_splits\<close>)
qed

lemma ReadFull_effect: "ReadFull fd n w = (r, w') \<Longrightarrow> read_effect fd w w'"
proof -
  assume r: "ReadFull fd n w = (r, w')"
  let ?c = "conns w fd"
  show ?thesis
  proof (cases "nc_closed ?c \<and> 0 < n")
    case True
    with r show ?thesis by (auto simp: ReadFull_def)
  next
    case False
    obtain bs e t ins where v: "recv (nc_deadline ?c) (now w) (nc_in ?c) n = (bs, e, t, ins)"
      by (metis prod_cases4)
    then have "w' = w\<lparr>now := t, conns := (conns w)(fd := ?c\<lparr>nc_in := ins\<rparr>)\<rparr>"
      using r False by (auto simp: ReadFull_def Let_def split: rx_end.splits)
    then show ?thesis
      using recv_prefix [OF v] recv_clock [OF v] unfolding read_effect_def by blast
  qed
qed

lemma ReadFull_result:
  assumes "ReadFull fd n w = (r, w')"
  shows "(\<exists>bs err. r = Ok (bs, err) \<and> length bs \<le> n \<and> (err = None \<longrightarrow> length bs = n) \<and>
      length (nc_in (conns w fd)) = length bs + length (nc_in (conns w' fd))) \<or>
    (r = Blocked \<and> nc_deadline (conns w fd) = None)"
proof -
  let ?c = "conns w fd"
  obtain bs e t ins where v: "recv (nc_deadline ?c) (now w) (nc_in ?c) n = (bs, e, t, ins)"
    by (metis prod_cases4)
  show ?thesis
    using assms v recv_count [OF v] recv_length [OF v] recv_wait
    by (auto simp: ReadFull_def Let_def split: rx_end.splits if_splits)
qed

lemma ReadFull_cases:
  assumes "ReadFull fd n w = (r, w')"
  obtains (read) bs err where "r = Ok (bs, err)" "length bs \<le> n" "err = None \<Longrightarrow> length bs = n"
      "length (nc_in (conns w fd)) = length bs + length (nc_in (conns w' fd))"
  | (blocked) "r = Blocked" "nc_deadline (conns w fd) = None"
  using ReadFull_result [OF assms] read blocked by (elim disjE exE conjE) auto

lemma readFrameSize_result:
  assumes "readFrameSize fd maxSize w = (r, w')"
  shows "read_effect fd w w'"
    and "r = Ok n \<Longrightarrow> length (nc_in (conns w fd)) = 4 + length (nc_in (conns w' fd)) \<and>
      of_nat n \<le> (word_of_int maxSize :: uint32) \<and> n < 2 ^ 32"
    and "(\<exists>n. r = Ok n) \<or> (\<exists>e. r = Err e) \<or> (r = Blocked \<and> nc_deadline (conns w fd) = None)"
proof -
  obtain q w1 where h: "ReadFull fd frameHeaderSize w = (q, w1)" by force
  have w1: "w' = w1"
    using assms h by (auto simp: readFrameSize_def bindR_def Let_def split: res.splits option.splits if_splits prod.splits)
  with ReadFull_effect [OF h] show "read_effect fd w w'" by simp
  show "r = Ok n \<Longrightarrow> length (nc_in (conns w fd)) = 4 + length (nc_in (conns w' fd)) \<and>
      of_nat n \<le> (word_of_int maxSize :: uint32) \<and> n < 2 ^ 32"
    using assms h w1 ReadFull_result [OF h] unsigned_less [where 'a = nat and 'b = 32]
    by (auto simp: readFrameSize_def bindR_def Let_def frameHeaderSize_def not_less
      split: res.splits option.splits if_splits prod.splits)
  show "(\<exists>n. r = Ok n) \<or> (\<exists>e. r = Err e) \<or> (r = Blocked \<and> nc_deadline (conns w fd) = None)"
    using assms h ReadFull_result [OF h]
    by (auto simp: readFrameSize_def bindR_def Let_def split: res.splits option.splits if_splits prod.splits)
qed

lemma read_effect_frame:
  assumes "read_effect fd w w'"
  shows "nc_deadline (conns w' fd) = nc_deadline (conns w fd)"
    and "nc_closed (conns w' fd) = nc_closed (conns w fd)"
    and "nc_out (conns w' fd) = nc_out (conns w fd)"
    and "nc_tx (conns w' fd) = nc_tx (conns w fd)"
    and "fd' \<noteq> fd \<Longrightarrow> conns w' fd' = conns w fd'"
    and "dials w' = dials w" "nconns w' = nconns w" "dialed w' = dialed w"
    and "now w \<le> now w'"
    and "nc_deadline (conns w fd) = Some d \<Longrightarrow> now w' \<le> max (now w) d"
  using assms by (auto simp: read_effect_def)

text \<open>A frame size accepted by \<^verbatim>\<open>readFrameSize\<close> fits into a buffer of the maximum message size.\<close>

lemma accepted_size_fits:
  assumes "of_nat n \<le> (word_of_int maxSize :: uint32)" and "n < 2 ^ 32" and "0 \<le> maxSize"
  shows "int n \<le> maxSize"
proof -
  have "uint (of_nat n :: uint32) = int n"
    using assms(2) by (simp add: unsigned_of_nat take_bit_nat_eq_self)
  moreover have "uint (word_of_int maxSize :: uint32) = maxSize mod 2 ^ 32"
    by (simp add: unsigned_of_int take_bit_eq_mod)
  ultimately have "int n \<le> maxSize mod 2 ^ 32"
    using assms(1) by (simp add: word_le_def)
  also have "\<dots> \<le> maxSize"
    using assms(3) by (simp add: zmod_le_nonneg_dividend)
  finally show ?thesis .
qed

lemma readFrameInto_result:
  assumes "readFrameInto fd maxSize (b, w) = (r, (b', w'))"
  shows "read_effect fd w w'"
    and "length b' = length b"
    and "r = Ok m \<Longrightarrow> length (nc_in (conns w fd)) = 4 + length m + length (nc_in (conns w' fd))"
    and "int (length b) = maxSize \<Longrightarrow> nc_deadline (conns w fd) \<noteq> None \<Longrightarrow> returns r"
proof -
  obtain q w1 where h: "readFrameSize fd maxSize w = (q, w1)" by force
  note size = readFrameSize_result [OF h]
  note frame = read_effect_frame [OF size(1)]
  have all: "read_effect fd w w' \<and> length b' = length b \<and>
    (r = Ok m \<longrightarrow> length (nc_in (conns w fd)) = 4 + length m + length (nc_in (conns w' fd))) \<and>
    (int (length b) = maxSize \<and> nc_deadline (conns w fd) \<noteq> None \<longrightarrow> returns r)"
  proof (cases "\<exists>n. q = Ok n \<and> n \<le> length b")
    case False
    have "n \<le> length b" if "q = Ok n" "int (length b) = maxSize" for n
      using size(2) [OF that(1)] accepted_size_fits [of n maxSize] that(2) by simp
    with False assms h size(1,3) show ?thesis
      by (auto simp: readFrameInto_def not_le split: res.splits)
  next
    case True
    then obtain n where n: "q = Ok n" "n \<le> length b" by blast
    obtain q2 w2 where f: "ReadFull fd n w1 = (q2, w2)" by force
    have "read_effect fd w w2"
      using size(1) ReadFull_effect [OF f] by (rule read_effect_trans)
    from f show ?thesis
    proof (cases rule: ReadFull_cases)
      case (read bs err)
      then show ?thesis
        using assms h n f size(2) [OF n(1)] \<open>read_effect fd w w2\<close>
        by (cases err) (auto simp: readFrameInto_def Let_def)
    next
      case blocked
      then show ?thesis
        using assms h n f frame(1) \<open>read_effect fd w w2\<close> by (simp add: readFrameInto_def)
    qed
  qed
  show "read_effect fd w w'" "length b' = length b" using all by auto
  show "r = Ok m \<Longrightarrow> length (nc_in (conns w fd)) = 4 + length m + length (nc_in (conns w' fd))"
    using all by auto
  show "int (length b) = maxSize \<Longrightarrow> nc_deadline (conns w fd) \<noteq> None \<Longrightarrow> returns r"
    using all by auto
qed

subsection \<open>What writing does to the network\<close>

text \<open>
  Writing touches only the clock, the write script and the output of the connection:
  \<open>write_effect fd sent w w'\<close>, where \<open>sent\<close> are the bytes that went out.
\<close>

definition write_effect :: "nat \<Rightarrow> bytes \<Rightarrow> world \<Rightarrow> world \<Rightarrow> bool" where
  "write_effect fd sent w w' \<longleftrightarrow>
     (\<exists>t tx. w' = w\<lparr>now := t, conns := (conns w)(fd := (conns w fd)
          \<lparr>nc_tx := tx, nc_out := nc_out (conns w fd) @ sent\<rparr>)\<rparr> \<and>
        now w \<le> t \<and> (\<forall>d. nc_deadline (conns w fd) = Some d \<longrightarrow> t \<le> max (now w) d))"

lemma write_effect_refl [simp]: "write_effect fd [] w w"
  unfolding write_effect_def by (intro exI [of _ "now w"] exI [of _ "nc_tx (conns w fd)"]) simp

lemma write_effect_trans:
  assumes "write_effect fd s w w1" and "write_effect fd s' w1 w2"
  shows "write_effect fd (s @ s') w w2"
proof -
  obtain t tx where 1: "w1 = w\<lparr>now := t, conns := (conns w)(fd := (conns w fd)
      \<lparr>nc_tx := tx, nc_out := nc_out (conns w fd) @ s\<rparr>)\<rparr>"
    "now w \<le> t" "\<forall>d. nc_deadline (conns w fd) = Some d \<longrightarrow> t \<le> max (now w) d"
    using assms(1) unfolding write_effect_def by blast
  obtain t' tx' where 2: "w2 = w1\<lparr>now := t', conns := (conns w1)(fd := (conns w1 fd)
      \<lparr>nc_tx := tx', nc_out := nc_out (conns w1 fd) @ s'\<rparr>)\<rparr>"
    "now w1 \<le> t'" "\<forall>d. nc_deadline (conns w1 fd) = Some d \<longrightarrow> t' \<le> max (now w1) d"
    using assms(2) unfolding write_effect_def by blast
  show ?thesis
    unfolding write_effect_def
    by (intro exI [of _ t'] exI [of _ tx']) (use 1 2 in \<open>auto simp: max_def split: if_splits\<close>)
qed

lemma write_effect_frame:
  assumes "write_effect fd sent w w'"
  shows "nc_out (conns w' fd) = nc_out (conns w fd) @ sent"
    and "nc_in (conns w' fd) = nc_in (conns w fd)"
    and "nc_deadline (conns w' fd) = nc_deadline (conns w fd)"
    and "nc_closed (conns w' fd) = nc_closed (conns w fd)"
    and "fd' \<noteq> fd \<Longrightarrow> conns w' fd' = conns w fd'"
    and "dials w' = dials w" "nconns w' = nconns w" "dialed w' = dialed w"
    and "now w \<le> now w'"
    and "nc_deadline (conns w fd) = Some d \<Longrightarrow> now w' \<le> max (now w) d"
  using assms by (auto simp: write_effect_def)

lemma conn_Write_effect:
  assumes "conn_Write fd data w = ((n, err), w')"
  shows "write_effect fd (take n data) w w'" and "n \<le> length data"
proof -
  let ?c = "conns w fd"
  have "write_effect fd (take n data) w w' \<and> n \<le> length data"
  proof (cases "nc_closed ?c")
    case True
    with assms show ?thesis by (auto simp: conn_Write_def)
  next
    case open_conn: False
    show ?thesis
    proof (cases "nc_tx ?c")
      case Nil
      have "write_effect fd data w (w\<lparr>conns := (conns w)(fd := ?c\<lparr>nc_out := nc_out ?c @ data\<rparr>)\<rparr>)"
        unfolding write_effect_def by (intro exI [of _ "now w"] exI [of _ "nc_tx ?c"]) simp
      with assms open_conn Nil show ?thesis by (auto simp: conn_Write_def Let_def split: if_splits)
    next
      case (Cons x tx)
      obtain a m e where x: "x = (a, m, e)" by (cases x)
      let ?w = "\<lambda>t sent. w\<lparr>now := t, conns := (conns w)(fd := ?c\<lparr>nc_tx := tx, nc_out := nc_out ?c @ sent\<rparr>)\<rparr>"
      have "write_effect fd sent w (?w t sent)"
        if "now w \<le> t" "\<forall>d. nc_deadline ?c = Some d \<longrightarrow> t \<le> max (now w) d" for t sent
        unfolding write_effect_def using that by blast
      from this [of "max (now w) (the (nc_deadline ?c))" "[]"] this [of "max (now w) a" "take m data"]
      show ?thesis
        using assms open_conn Cons x
        by (auto simp: conn_Write_def Let_def expired_def min_def split: if_splits option.splits)
    qed
  qed
  then show "write_effect fd (take n data) w w'" "n \<le> length data" by auto
qed

declare writeAll.simps [simp del]

lemma writeAll_result:
  assumes "writeAll fd data w = (r, w')"
  shows "(r = Ok () \<and> write_effect fd data w w') \<or>
    (\<exists>e k. r = Err e \<and> k \<le> length data \<and> write_effect fd (take k data) w w')"
  using assms
proof (induction fd data w arbitrary: r w' rule: writeAll.induct)
  case (1 fd data w)
  show ?case
  proof (cases "data = []")
    case True
    with "1.prems" show ?thesis by (simp add: writeAll.simps)
  next
    case nonempty: False
    obtain n err w1 where wr: "conn_Write fd data w = ((n, err), w1)" by (metis prod_cases3 prod.collapse)
    note eff = conn_Write_effect [OF wr]
    show ?thesis
    proof (cases "err = None \<and> n \<noteq> 0")
      case False
      with "1.prems" nonempty wr eff show ?thesis
        by (auto simp: writeAll.simps split: option.splits if_splits)
    next
      case True
      then have rest: "writeAll fd (drop n data) w1 = (r, w')"
        using "1.prems" nonempty wr by (simp add: writeAll.simps)
      have "(r = Ok () \<and> write_effect fd (drop n data) w1 w') \<or>
        (\<exists>e k. r = Err e \<and> k \<le> length (drop n data) \<and> write_effect fd (take k (drop n data)) w1 w')"
        using "1.IH" nonempty wr True rest by auto
      then show ?thesis
      proof (elim disjE exE conjE)
        assume "r = Ok ()" "write_effect fd (drop n data) w1 w'"
        with write_effect_trans [OF eff(1)] show ?thesis by fastforce
      next
        fix e k assume k: "r = Err e" "k \<le> length (drop n data)" "write_effect fd (take k (drop n data)) w1 w'"
        have "take n data @ take k (drop n data) = take (n + k) data"
          by (simp add: take_add)
        with write_effect_trans [OF eff(1) k(3)] k(1,2) eff(2) show ?thesis
          by (intro disjI2 exI [of _ e] exI [of _ "n + k"]) auto
      qed
    qed
  qed
qed

text \<open>The frame of a payload on the wire.\<close>

definition frame :: "bytes \<Rightarrow> bytes" where
  "frame payload = PutUint32 (of_nat (length payload)) @ payload"

lemma length_PutUint32 [simp]: "length (PutUint32 v) = 4"
  by (simp add: PutUint32_def)

lemma writeFrame_result:
  assumes "writeFrame fd payload w = (r, w')"
  shows "(r = Ok () \<and> length payload < 2 ^ 32 \<and> write_effect fd (frame payload) w w') \<or>
    (\<exists>e k. r = Err e \<and> write_effect fd (take k (frame payload)) w w')"
proof (cases "length payload < 2 ^ 32")
  case False
  then have "uint maxFramePayloadSize < int (length payload)" by (simp add: maxFramePayloadSize_def)
  with assms show ?thesis
    by (intro disjI2) (auto simp: writeFrame_def intro!: exI [of _ 0])
next
  case True
  then have small: "\<not> uint maxFramePayloadSize < int (length payload)" by (simp add: maxFramePayloadSize_def)
  let ?h = "PutUint32 (of_nat (length payload))"
  obtain q w1 where h: "writeAll fd ?h w = (q, w1)" by force
  show ?thesis
    using writeAll_result [OF h]
  proof (elim disjE exE conjE)
    fix e k assume k: "q = Err e" "k \<le> length ?h" "write_effect fd (take k ?h) w w1"
    then have "write_effect fd (take k (frame payload)) w w1" by (simp add: frame_def)
    with assms small h k(1) show ?thesis
      by (auto simp: writeFrame_def Let_def io_simps)
  next
    assume ok: "q = Ok ()" "write_effect fd ?h w w1"
    then have p: "writeAll fd payload w1 = (r, w')"
      using assms small h by (simp add: writeFrame_def Let_def io_simps)
    show ?thesis
      using writeAll_result [OF p]
    proof (elim disjE exE conjE)
      assume "r = Ok ()" "write_effect fd payload w1 w'"
      with write_effect_trans [OF ok(2)] True show ?thesis by (simp add: frame_def)
    next
      fix e k assume k: "r = Err e" "k \<le> length payload" "write_effect fd (take k payload) w1 w'"
      have "?h @ take k payload = take (4 + k) (frame payload)" by (simp add: frame_def)
      with write_effect_trans [OF ok(2) k(3)] k(1) show ?thesis by metis
    qed
  qed
qed

subsection \<open>Frames round trip\<close>

lemma of_char_char_of_mod [simp]: "of_char (char_of (n mod 256 :: nat) :: char) = n mod 256"
  by (simp add: of_char_of)

lemma big_endian_digits:
  fixes a :: nat
  assumes "a < 2 ^ 32"
  shows "foldl (\<lambda>n b. n * 256 + of_char b) 0
    (map char_of [a div 256 ^ 3 mod 256, a div 256 ^ 2 mod 256, a div 256 ^ 1 mod 256, a div 256 ^ 0 mod 256]) = a"
proof -
  define b c e where "b = a div 256" and "c = b div 256" and "e = c div 256"
  have "e < 256"
    using assms unfolding e_def c_def b_def by (simp add: div_mult2_eq [symmetric] less_mult_imp_div_less)
  moreover have "a div 256 ^ 3 = e" "a div 256 ^ 2 = c" "a div 256 ^ 1 = b"
    unfolding e_def c_def b_def by (simp_all add: div_mult2_eq [symmetric])
  moreover have "e * 256 + c mod 256 = c" "c * 256 + b mod 256 = b" "b * 256 + a mod 256 = a"
    unfolding e_def c_def b_def by simp_all
  ultimately show ?thesis by simp
qed

lemma Uint32_PutUint32 [simp]: "Uint32 (PutUint32 v @ rest) = v"
proof -
  have "unat v < 2 ^ 32" using unsigned_less [where 'a = nat, of v] by simp
  note digits = big_endian_digits [OF this]
  have "take 4 (PutUint32 v @ rest) = PutUint32 v" by simp
  then show ?thesis
    using digits by (simp only: Uint32_def PutUint32_def byte_at_def list.map) simp
qed

lemma ReadFull_prompt:
  assumes "nc_in (conns w fd) = pre @ rest" "map snd pre = map RxByte bs"
    and "nc_deadline (conns w fd) = Some d" "now w < d" "prompt d pre" "\<not> nc_closed (conns w fd)"
  shows "ReadFull fd (length bs) w =
    (Ok (bs, None), w\<lparr>now := arrival (now w) pre, conns := (conns w)(fd := (conns w fd)\<lparr>nc_in := rest\<rparr>)\<rparr>)"
  using assms recv_prompt [of pre bs d "now w" rest] by (simp add: ReadFull_def Let_def)

text \<open>A frame that arrives before the deadline and fits is read whole, and what follows it is kept.\<close>

lemma readFrameInto_prompt:
  assumes "nc_in (conns w fd) = pre @ rest" "map snd pre = map RxByte (frame p)"
    and "nc_deadline (conns w fd) = Some d" "now w < d" "prompt d pre" "\<not> nc_closed (conns w fd)"
    and "int (length b) = maxSize" "length p \<le> length b" "maxSize < 2 ^ 32"
  shows "readFrameInto fd maxSize (b, w) =
    (Ok p, (p @ drop (length p) b,
      w\<lparr>now := arrival (now w) pre, conns := (conns w)(fd := (conns w fd)\<lparr>nc_in := rest\<rparr>)\<rparr>))"
proof -
  let ?h = "PutUint32 (of_nat (length p))"
  obtain pre1 pre2 where pre: "pre = pre1 @ pre2" "map snd pre1 = map RxByte ?h" "map snd pre2 = map RxByte p"
    using assms(2) by (auto simp: frame_def map_eq_append_conv)
  let ?w1 = "w\<lparr>now := arrival (now w) pre1, conns := (conns w)(fd := (conns w fd)\<lparr>nc_in := pre2 @ rest\<rparr>)\<rparr>"
  have h: "ReadFull fd 4 w = (Ok (?h, None), ?w1)"
    using ReadFull_prompt [of w fd pre1 "pre2 @ rest" ?h d] assms pre by simp
  have "length p < 2 ^ 32" using assms(7-9) by simp
  then have len: "unat (of_nat (length p) :: uint32) = length p"
    by (simp add: unsigned_of_nat take_bit_nat_eq_self)
  have "\<not> (word_of_int maxSize :: uint32) < of_nat (length p)"
  proof -
    have "uint (word_of_int maxSize :: uint32) = maxSize"
      using assms(7,9) by (simp add: unsigned_of_int take_bit_int_eq_self)
    moreover have "uint (of_nat (length p) :: uint32) = int (length p)"
      using len by (metis uint_nat)
    ultimately show ?thesis using assms(7,8) by (simp add: word_less_def)
  qed
  moreover have "Uint32 ?h = of_nat (length p)"
    using Uint32_PutUint32 [where rest = "[]"] by simp
  ultimately have size: "readFrameSize fd maxSize w = (Ok (length p), ?w1)"
    using h len by (simp add: readFrameSize_def frameHeaderSize_def Let_def io_simps)
  have "arrival (now w) pre1 < d" using arrival_bounds [of "now w" pre1 d] assms(4,5) pre(1) by simp
  then have "ReadFull fd (length p) ?w1 =
    (Ok (p, None), ?w1\<lparr>now := arrival (now w) pre,
      conns := (conns ?w1)(fd := (conns ?w1 fd)\<lparr>nc_in := rest\<rparr>)\<rparr>)"
    using ReadFull_prompt [of ?w1 fd pre2 rest p d] assms pre by simp
  with size assms(8) show ?thesis
    by (simp add: readFrameInto_def Let_def)
qed

subsection \<open>A frame that was read is one that arrived\<close>

lemma ReadFull_complete:
  assumes "ReadFull fd n w = (Ok (bs, None), w')"
  shows "\<exists>pre. nc_in (conns w fd) = pre @ nc_in (conns w' fd) \<and> map snd pre = map RxByte bs \<and> length bs = n"
proof (cases "nc_closed (conns w fd) \<and> 0 < n")
  case True
  with assms show ?thesis by (simp add: ReadFull_def)
next
  case False
  let ?c = "conns w fd"
  obtain bs' e t ins where v: "recv (nc_deadline ?c) (now w) (nc_in ?c) n = (bs', e, t, ins)"
    by (metis prod_cases4)
  with assms False have "bs' = bs" "e = RxDone" "nc_in (conns w' fd) = ins"
    by (auto simp: ReadFull_def Let_def split: rx_end.splits)
  with recv_prefix [OF v] recv_count [OF v] show ?thesis by blast
qed

lemma byte_digits:
  fixes a b c d :: nat
  assumes "a < 256" "b < 256" "c < 256" "d < 256"
  defines "n \<equiv> ((a * 256 + b) * 256 + c) * 256 + d"
  shows "n div 256 ^ 3 mod 256 = a \<and> n div 256 ^ 2 mod 256 = b \<and> n div 256 ^ 1 mod 256 = c \<and>
    n div 256 ^ 0 mod 256 = d \<and> n < 2 ^ 32"
proof -
  have 1: "n div 256 = (a * 256 + b) * 256 + c" using assms by simp
  then have 2: "n div 256 div 256 = a * 256 + b" using assms(1-4) by simp
  then have 3: "n div 256 div 256 div 256 = a" using assms(1-4) by simp
  have "n div 256 ^ 3 = n div 256 div 256 div 256" "n div 256 ^ 2 = n div 256 div 256"
    by (simp_all add: div_mult2_eq [symmetric])
  moreover have "n mod 256 = d" unfolding n_def using assms(4) by (simp only: mod_mult_self3 mod_less)
  moreover have "n < 2 ^ 32" unfolding n_def using assms(1-4) by simp
  moreover have "((a * 256 + b) * 256 + c) mod 256 = c" "(a * 256 + b) mod 256 = b"
    using assms(2,3) by (simp_all only: mod_mult_self3 mod_less)
  ultimately show ?thesis using 1 2 3 assms(1) by (simp del: distrib_right_numeral)
qed

lemma PutUint32_Uint32:
  assumes "length h = 4"
  shows "PutUint32 (Uint32 h) = h"
proof -
  obtain a b c d where h: "h = [a, b, c, d]"
    using assms by (auto simp: length_Suc_conv numeral_eq_Suc)
  define n :: nat where "n = ((of_char a * 256 + of_char b) * 256 + of_char c) * 256 + of_char d"
  note digits = byte_digits [of "of_char a" "of_char b" "of_char c" "of_char d", folded n_def]
  have "unat (of_nat n :: uint32) = n"
    using digits by (simp add: unsigned_of_nat take_bit_nat_eq_self)
  then have "PutUint32 (of_nat n) = h"
    using digits unfolding h PutUint32_def byte_at_def by simp
  moreover have "Uint32 h = of_nat n"
    by (simp add: Uint32_def h n_def)
  ultimately show ?thesis by simp
qed

lemma readFrameInto_sound:
  assumes "readFrameInto fd maxSize (b, w) = (Ok m, (b', w'))"
  shows "\<exists>pre. nc_in (conns w fd) = pre @ nc_in (conns w' fd) \<and> map snd pre = map RxByte (frame m)"
proof -
  from assms obtain n w1 where n: "readFrameSize fd maxSize w = (Ok n, w1)" "n \<le> length b"
    and body: "\<exists>bs. ReadFull fd n w1 = (Ok (bs, None), w') \<and> m = take n (bs @ drop (length bs) b)"
    by (auto simp: readFrameInto_def Let_def split: prod.splits res.splits if_splits option.splits)
  from n(1) obtain h where h: "ReadFull fd 4 w = (Ok (h, None), w1)" "n = unat (Uint32 h)"
    by (auto simp: readFrameSize_def frameHeaderSize_def bindR_def Let_def
      split: prod.splits res.splits if_splits option.splits)
  from ReadFull_complete [OF h(1)] obtain pre1 where pre1:
    "nc_in (conns w fd) = pre1 @ nc_in (conns w1 fd)" "map snd pre1 = map RxByte h" "length h = 4" by blast
  from body ReadFull_complete obtain pre2 bs where pre2:
    "nc_in (conns w1 fd) = pre2 @ nc_in (conns w' fd)" "map snd pre2 = map RxByte bs" "length bs = n"
    "m = take n (bs @ drop (length bs) b)" by blast
  then have "m = bs" "length m = n" by simp_all
  then have "frame m = h @ bs"
    using PutUint32_Uint32 [OF pre1(3)] h(2) by (simp add: frame_def)
  with pre1 pre2 show ?thesis by (intro exI [of _ "pre1 @ pre2"]) simp
qed

text \<open>C7: A frame that \<^verbatim>\<open>writeFrame\<close> sent, however the network split the writes, is read back by
  \<^verbatim>\<open>readFrameInto\<close> when its bytes arrive, at any times before the deadline, and the reader's buffer is
  large enough: it returns the payload and leaves exactly what follows the frame.\<close>

theorem frame_roundtrip:
  assumes "writeFrame fd p w = (Ok (), w')"
    and "nc_out (conns w' fd) = nc_out (conns w fd) @ wire"
    and "nc_in (conns v fd') = pre @ rest" "map snd pre = map RxByte wire"
    and "nc_deadline (conns v fd') = Some d" "now v < d" "prompt d pre" "\<not> nc_closed (conns v fd')"
    and "int (length b) = maxSize" "length p \<le> length b" "maxSize < 2 ^ 32"
  shows "readFrameInto fd' maxSize (b, v) =
    (Ok p, (p @ drop (length p) b,
      v\<lparr>now := arrival (now v) pre, conns := (conns v)(fd' := (conns v fd')\<lparr>nc_in := rest\<rparr>)\<rparr>))"
proof -
  have "write_effect fd (frame p) w w'" using writeFrame_result [OF assms(1)] by simp
  with assms(2) have "wire = frame p" by (simp add: write_effect_frame)
  with assms show ?thesis by (intro readFrameInto_prompt) auto
qed

text \<open>A sender whose network takes the frame in pieces, and a receiver that gets it byte by byte.\<close>

definition example_conn :: "rx_script \<Rightarrow> tx_script \<Rightarrow> netconn" where
  "example_conn ins tx = \<lparr>nc_in = ins, nc_tx = tx, nc_out = [], nc_deadline = Some 100, nc_closed = False\<rparr>"

definition example_world :: "netconn \<Rightarrow> world" where
  "example_world c = \<lparr>now = 0, conns = (\<lambda>_. c), nconns = 1, dials = [], dialed = []\<rparr>"

definition arriving :: "int \<Rightarrow> bytes \<Rightarrow> rx_script" where
  "arriving t bs = map (\<lambda>b. (t, RxByte b)) bs"

theorem frame_roundtrip_witness:
  "fst (readFrameInto 0 8 (''________'',
     example_world (example_conn (arriving 7 (frame ''GET k'') @ arriving 9 ''x'') []))) = Ok ''GET k''"
proof -
  let ?w = "example_world (example_conn [] [(1, 3, None), (2, 3, None), (5, 9, None)])"
  note net_eval = writeFrame_def maxFramePayloadSize_def PutUint32_def byte_at_def writeAll.simps
    conn_Write_def expired_def example_world_def example_conn_def bindR_def Let_def frame_def
  have "writeFrame 0 ''GET k'' ?w = (Ok (), snd (writeFrame 0 ''GET k'' ?w))"
    by (simp add: net_eval)
  moreover have "nc_out (conns (snd (writeFrame 0 ''GET k'' ?w)) 0) = nc_out (conns ?w 0) @ frame ''GET k''"
    by (simp add: net_eval)
  moreover have "map snd (arriving 7 (frame ''GET k'')) = map RxByte (frame ''GET k'')"
    "prompt 100 (arriving 7 (frame ''GET k''))"
    by (auto simp: arriving_def prompt_def list_all_iff)
  ultimately show ?thesis
    by (subst frame_roundtrip [where d = 100 and rest = "arriving 9 ''x''"])
      (auto simp: example_world_def example_conn_def)
qed

end
