(* ===== verification/Buffer_Pools.thy ===== *)
theory Buffer_Pools
  imports Go_IO
begin

text \<open>
  The two recycling pools: \<^verbatim>\<open>bytes_pool.go\<close> for read buffers of a fixed size and
  \<^verbatim>\<open>bytes_buffer_pool.go\<close> for command buffers. A \<^verbatim>\<open>sync.Pool\<close> may hand out any pooled object, or a
  new one, and may drop objects at any time; the models pool in a stack, and the contract below
  (the locale \<open>recycling_pool\<close>) shows why the choice cannot be observed: every object a clean pool can
  hand out equals a new one.
\<close>

subsection \<open>Read buffers\<close>

record bytesPool =
  bp_pool :: "bytes list"
  bp_size :: nat
  bp_clearSlice :: bytes

text \<open>\<^verbatim>\<open>make([]byte, n)\<close>: zeroed bytes.\<close>

definition make_bytes :: "nat \<Rightarrow> bytes" where
  "make_bytes n = replicate n (char_of (0 :: nat))"

definition newBytesPool :: "int \<Rightarrow> bytesPool res" where
  "newBytesPool sz =
     (if sz < 0 then Panic ''makeslice: len out of range''
      else Ok \<lparr>bp_pool = [], bp_size = nat sz, bp_clearSlice = make_bytes (nat sz)\<rparr>)"

definition bytesPool_Get :: "bytesPool \<Rightarrow> bytes \<times> bytesPool" where
  "bytesPool_Get p =
     (case bp_pool p of
        [] \<Rightarrow> (make_bytes (bp_size p), p)
      | b # bs \<Rightarrow> (b, p\<lparr>bp_pool := bs\<rparr>))"

text \<open>Go's built-in \<^verbatim>\<open>copy\<close>: as many bytes as both slices have.\<close>

definition copy :: "bytes \<Rightarrow> bytes \<Rightarrow> bytes" where
  "copy dst src = take (length dst) src @ drop (length src) dst"

definition bytesPool_Put :: "bytes \<Rightarrow> bytesPool \<Rightarrow> bytesPool" where
  "bytesPool_Put b p = p\<lparr>bp_pool := copy b (bp_clearSlice p) # bp_pool p\<rparr>"

definition bytesPool_clean :: "bytesPool \<Rightarrow> bool" where
  "bytesPool_clean p \<longleftrightarrow>
     bp_clearSlice p = make_bytes (bp_size p) \<and>
     list_all (\<lambda>b. b = make_bytes (bp_size p)) (bp_pool p)"

subsection \<open>Command buffers\<close>

type_synonym BytesBufferPool = "bytes list"

definition newBytesBufferPool :: BytesBufferPool where
  "newBytesBufferPool = []"

definition BytesBufferPool_Get :: "BytesBufferPool \<Rightarrow> bytes \<times> BytesBufferPool" where
  "BytesBufferPool_Get p = (case p of [] \<Rightarrow> ([], []) | b # bs \<Rightarrow> (b, bs))"

definition buffer_Reset :: "bytes \<Rightarrow> bytes" where
  "buffer_Reset buf = []"

definition BytesBufferPool_Put :: "bytes \<Rightarrow> BytesBufferPool \<Rightarrow> BytesBufferPool" where
  "BytesBufferPool_Put buf p = buffer_Reset buf # p"

definition BytesBufferPool_clean :: "BytesBufferPool \<Rightarrow> bool" where
  "BytesBufferPool_clean p \<longleftrightarrow> list_all (\<lambda>b. b = []) p"

subsection \<open>The contract of a recycling pool\<close>

locale recycling_pool =
  fixes clean :: "'p \<Rightarrow> bool"
    and get :: "'p \<Rightarrow> 'o \<times> 'p"
    and put :: "'o \<Rightarrow> 'p \<Rightarrow> 'p"
    and fresh :: "'p \<Rightarrow> 'o"
    and pooled :: "'p \<Rightarrow> 'o set"
    and returnable :: "'p \<Rightarrow> 'o \<Rightarrow> bool"
  assumes pooled_fresh: "clean p \<Longrightarrow> x \<in> pooled p \<Longrightarrow> x = fresh p"
    and get_source: "fst (get p) \<in> insert (fresh p) (pooled p)"
    and get_clean: "clean p \<Longrightarrow> clean (snd (get p))"
    and put_clean: "clean p \<Longrightarrow> returnable p x \<Longrightarrow> clean (put x p)"
    and fresh_get: "fresh (snd (get p)) = fresh p"
    and fresh_put: "fresh (put x p) = fresh p"
begin

text \<open>Whatever object of the pool, or new one, a client is given: it is like new.\<close>

lemma any_choice_fresh: "clean p \<Longrightarrow> x \<in> insert (fresh p) (pooled p) \<Longrightarrow> x = fresh p"
  using pooled_fresh by blast

lemma get_fresh: "clean p \<Longrightarrow> fst (get p) = fresh p"
  using any_choice_fresh get_source by blast

text \<open>Nothing one user leaves in an object reaches the next user.\<close>

lemma next_user_fresh:
  assumes "clean p" and "returnable (snd (get p)) x"
  shows "fst (get (put x (snd (get p)))) = fresh p"
  using assms by (simp add: get_fresh get_clean put_clean fresh_get fresh_put)

end

lemma length_make_bytes [simp]: "length (make_bytes n) = n"
  by (simp add: make_bytes_def)

lemma copy_same_length: "length dst = length src \<Longrightarrow> copy dst src = src"
  by (simp add: copy_def)

lemma length_copy [simp]: "length (copy dst src) = length dst"
  by (auto simp: copy_def)

interpretation readBuffers: recycling_pool bytesPool_clean bytesPool_Get bytesPool_Put
    "\<lambda>p. make_bytes (bp_size p)" "\<lambda>p. set (bp_pool p)" "\<lambda>p b. length b = bp_size p"
  by unfold_locales
    (auto simp: bytesPool_clean_def bytesPool_Get_def bytesPool_Put_def copy_same_length list_all_iff
      split: list.splits)

interpretation commandBuffers: recycling_pool BytesBufferPool_clean BytesBufferPool_Get
    BytesBufferPool_Put "\<lambda>_. []" "\<lambda>p. set p" "\<lambda>_ _. True"
  by unfold_locales
    (auto simp: BytesBufferPool_clean_def BytesBufferPool_Get_def BytesBufferPool_Put_def
      buffer_Reset_def list_all_iff split: list.splits)

lemma newBytesPool_clean: "newBytesPool n = Ok p \<Longrightarrow> bytesPool_clean p \<and> int (bp_size p) = n"
  by (auto simp: newBytesPool_def bytesPool_clean_def split: if_splits)

lemma bytesPool_size_simps [simp]:
  "bp_size (snd (bytesPool_Get p)) = bp_size p"
  "bp_size (bytesPool_Put b p) = bp_size p"
  by (auto simp: bytesPool_Get_def bytesPool_Put_def split: list.splits)

subsection \<open>Properties\<close>

text \<open>C40: Read buffers do not leak data between messages: whatever a message left in a buffer of the
  pool's size, the buffer the next read gets is all zero bytes and of the pool's size, and the pool
  stays clean.\<close>

theorem read_buffers_do_not_leak:
  assumes "bytesPool_clean p" and "length used = bp_size p"
  shows "fst (bytesPool_Get (bytesPool_Put used (snd (bytesPool_Get p)))) = make_bytes (bp_size p)
    \<and> bytesPool_clean (bytesPool_Put used (snd (bytesPool_Get p)))"
  using assms readBuffers.next_user_fresh [of p used]
  by (simp add: readBuffers.get_clean readBuffers.put_clean)

theorem read_buffers_do_not_leak_witness:
  "fst (bytesPool_Get (bytesPool_Put ''ok|7'' (snd (bytesPool_Get
     \<lparr>bp_pool = [], bp_size = 4, bp_clearSlice = make_bytes 4\<rparr>)))) = make_bytes 4"
  using read_buffers_do_not_leak [of "\<lparr>bp_pool = [], bp_size = 4, bp_clearSlice = make_bytes 4\<rparr>" "''ok|7''"]
  by (simp add: bytesPool_clean_def)

end
