(* ===== verification/Tcp_Client.thy ===== *)
theory Tcp_Client
  imports Frames Buffer_Pools
begin

text \<open>
  A framed connection to one server (\<^verbatim>\<open>tcp_client.go\<close>): length-prefixed frames, request and response
  with deadlines, streams, responses in chunks, the \<^verbatim>\<open>HELLO\<close> handshake and reconnecting. The methods of
  \<^verbatim>\<open>*TCPClient\<close> are functions on the pair of the client's struct and the network: a client is used
  by one caller at a time, so the struct is passed by value and returned updated.
\<close>

subsection \<open>State\<close>

record TCPClient =
  connection :: "nat option"
  address :: string
  maxMessageSize :: int
  idleTimeout :: int
  bufferPool :: bytesPool
  token :: string
  tlsConfig :: "tls_Config option"

type_synonym tcp_state = "TCPClient \<times> world"

text \<open>Inside a request the state also has the read buffer taken from the pool.\<close>

type_synonym buffered_state = "bytes \<times> TCPClient \<times> world"

definition connectTimeout :: int where
  "connectTimeout = 5 * 1000000000"

subsection \<open>Access to the connection\<close>

text \<open>A method call on the client's connection; a nil connection panics.\<close>

definition on_conn :: "(nat \<Rightarrow> (world, 'a) io) \<Rightarrow> (tcp_state, 'a) io" where
  "on_conn f = (\<lambda>(c, w).
     case connection c of
       None \<Rightarrow> (Panic ''nil pointer dereference'', (c, w))
     | Some fd \<Rightarrow> (case f fd w of (r, w') \<Rightarrow> (r, (c, w'))))"

definition TCPClient_deadline :: "TCPClient \<Rightarrow> ctx \<Rightarrow> int \<Rightarrow> int" where
  "TCPClient_deadline c ctx t =
     (let stdDeadline = t + idleTimeout c
      in case ctx_deadline ctx of
           Some deadline \<Rightarrow> if stdDeadline < deadline then stdDeadline else deadline
         | None \<Rightarrow> stdDeadline)"

definition setDeadline :: "ctx \<Rightarrow> (tcp_state, unit) io" where
  "setDeadline ctx = (\<lambda>(c, w).
     on_conn (\<lambda>fd. conn_SetDeadline fd (TCPClient_deadline c ctx (now w))) (c, w))"

definition readResponseFrame :: "(buffered_state, bytes) io" where
  "readResponseFrame = (\<lambda>(buffer, c, w).
     case connection c of
       None \<Rightarrow> (Panic ''nil pointer dereference'', (buffer, c, w))
     | Some fd \<Rightarrow>
         (case readFrameInto fd (maxMessageSize c) (buffer, w) of
            (r, (buffer', w')) \<Rightarrow> (r, (buffer', c, w'))))"

text \<open>
  \<^verbatim>\<open>response := c.bufferPool.Get(); defer c.bufferPool.Put(response)\<close> around the rest of a method.
\<close>

definition withBuffer :: "(buffered_state, 'a) io \<Rightarrow> (tcp_state, 'a) io" where
  "withBuffer m = (\<lambda>(c, w).
     case bytesPool_Get (bufferPool c) of
       (response, pool) \<Rightarrow>
         (case m (response, c\<lparr>bufferPool := pool\<rparr>, w) of
            (r, (response', c', w')) \<Rightarrow>
              (case r of
                 Blocked \<Rightarrow> (Blocked, (c', w'))
               | _ \<Rightarrow> (r, (c'\<lparr>bufferPool := bytesPool_Put response' (bufferPool c')\<rparr>, w')))))"

definition lift_tcp :: "(tcp_state, 'a) io \<Rightarrow> (buffered_state, 'a) io" where
  "lift_tcp m = (\<lambda>(buffer, s). case m s of (r, s') \<Rightarrow> (r, (buffer, s')))"

subsection \<open>Requests\<close>

definition Send :: "ctx \<Rightarrow> bytes \<Rightarrow> (tcp_state, bytes) io" where
  "Send ctx request = (\<lambda>(c, w).
     if maxMessageSize c < int (length request)
     then (Err (Errorf ''request exceeds max message size (%d)'' [D (maxMessageSize c)]), (c, w))
     else
       bindR (mapErr normalizeConnectionError (setDeadline ctx)) (\<lambda>_.
       bindR (mapErr normalizeConnectionError (on_conn (\<lambda>fd. writeFrame fd request))) (\<lambda>_.
       withBuffer (mapErr normalizeConnectionError readResponseFrame))) (c, w))"

subsection \<open>Streams\<close>

lemma setDeadline_eq:
  "setDeadline ctx (c, w) =
     (case connection c of
        None \<Rightarrow> (Panic ''nil pointer dereference'', (c, w))
      | Some fd \<Rightarrow>
          if nc_closed (conns w fd) then (Err (Sentinel NetErrClosed), (c, w))
          else (Ok (), (c, w\<lparr>conns := (conns w)(fd := (conns w fd)
            \<lparr>nc_deadline := Some (TCPClient_deadline c ctx (now w))\<rparr>)\<rparr>)))"
  by (auto simp: setDeadline_def on_conn_def conn_SetDeadline_def split: option.splits)

text \<open>What is still to arrive on the client's connection; each frame that is read shortens it.\<close>

definition inbox :: "tcp_state \<Rightarrow> rx_script" where
  "inbox s = (case connection (fst s) of None \<Rightarrow> [] | Some fd \<Rightarrow> nc_in (conns (snd s) fd))"

lemma setDeadline_inbox:
  "setDeadline ctx s = (r, s') \<Longrightarrow> inbox s' = inbox s \<and> fst s' = fst s"
  by (cases s) (auto simp: setDeadline_eq inbox_def split: option.splits if_splits)

lemma readResponseFrame_shrinks:
  assumes "readResponseFrame (b, s) = (Ok m, (b', s'))"
  shows "length (inbox s') < length (inbox s)"
proof -
  obtain c w where s: "s = (c, w)" by (cases s)
  obtain fd where fd: "connection c = Some fd"
    using assms s by (auto simp: readResponseFrame_def split: option.splits)
  obtain w' where w': "readFrameInto fd (maxMessageSize c) (b, w) = (Ok m, (b', w'))" "s' = (c, w')"
    using assms s fd by (auto simp: readResponseFrame_def split: prod.splits)
  from readFrameInto_result(3) [OF w'(1) refl] s fd w'(2) show ?thesis
    by (simp add: inbox_def)
qed

text \<open>
  The loop of \<^verbatim>\<open>Stream\<close>: the handler is the caller's function, on a state \<open>'h\<close> of its own; its error
  ends the loop.
\<close>

function streamLoop ::
  "ctx \<Rightarrow> (bytes \<Rightarrow> 'h \<Rightarrow> go_error option \<times> 'h) \<Rightarrow> 'h \<Rightarrow> buffered_state \<Rightarrow> (unit res \<times> 'h) \<times> buffered_state"
where
  "streamLoop ctx handle h s =
     (case mapErr normalizeConnectionError (lift_tcp (setDeadline ctx)) s of
        (Err e, s1) \<Rightarrow> ((Err e, h), s1)
      | (Panic p, s1) \<Rightarrow> ((Panic p, h), s1)
      | (Blocked, s1) \<Rightarrow> ((Blocked, h), s1)
      | (Ok _, s1) \<Rightarrow>
          (case mapErr normalizeConnectionError readResponseFrame s1 of
             (Err e, s2) \<Rightarrow> ((Err e, h), s2)
           | (Panic p, s2) \<Rightarrow> ((Panic p, h), s2)
           | (Blocked, s2) \<Rightarrow> ((Blocked, h), s2)
           | (Ok message, s2) \<Rightarrow>
               (case handle message h of
                  (Some e, h') \<Rightarrow> ((Err e, h'), s2)
                | (None, h') \<Rightarrow> streamLoop ctx handle h' s2)))"
  by pat_completeness auto

lemma loop_step_shrinks:
  assumes "mapErr g (lift_tcp (setDeadline ctx)) s = (Ok u, s1)"
    and "mapErr g' readResponseFrame s1 = (Ok m, s2)"
  shows "length (inbox (snd s2)) < length (inbox (snd s))"
proof -
  obtain b t where s: "s = (b, t)" by (cases s)
  obtain t1 where t1: "s1 = (b, t1)" "setDeadline ctx t = (Ok u, t1)"
    using assms(1) s by (auto simp: lift_tcp_def split: prod.splits)
  obtain b2 t2 where "s2 = (b2, t2)" by (cases s2)
  with assms(2) t1(1) have "readResponseFrame (b, t1) = (Ok m, (b2, t2))" by simp
  from readResponseFrame_shrinks [OF this] setDeadline_inbox [OF t1(2)] s \<open>s2 = (b2, t2)\<close> show ?thesis
    by simp
qed

termination streamLoop
  by (relation "measure (\<lambda>(ctx, handle, h, s). length (inbox (snd s)))")
    (auto simp del: mapErr_Ok_iff dest: loop_step_shrinks [OF sym sym] loop_step_shrinks)

declare streamLoop.simps [simp del]

definition TCPClient_Stream ::
  "ctx \<Rightarrow> bytes \<Rightarrow> (bytes \<Rightarrow> 'h \<Rightarrow> go_error option \<times> 'h) \<Rightarrow> 'h \<Rightarrow> tcp_state \<Rightarrow> (unit res \<times> 'h) \<times> tcp_state"
where
  "TCPClient_Stream ctx request handle h = (\<lambda>(c, w).
     if maxMessageSize c < int (length request)
     then ((Err (Errorf ''request exceeds max message size (%d)'' [D (maxMessageSize c)]), h), (c, w))
     else case bindR (mapErr normalizeConnectionError (setDeadline ctx)) (\<lambda>_.
                 mapErr normalizeConnectionError (on_conn (\<lambda>fd. writeFrame fd request))) (c, w) of
            (Err e, s1) \<Rightarrow> ((Err e, h), s1)
          | (Panic p, s1) \<Rightarrow> ((Panic p, h), s1)
          | (Blocked, s1) \<Rightarrow> ((Blocked, h), s1)
          | (Ok _, (c1, w1)) \<Rightarrow>
              (case bytesPool_Get (bufferPool c1) of
                 (response, pool) \<Rightarrow>
                   (case streamLoop ctx handle h (response, c1\<lparr>bufferPool := pool\<rparr>, w1) of
                      ((r, h'), (response', c', w')) \<Rightarrow>
                        (case r of
                           Blocked \<Rightarrow> ((Blocked, h'), (c', w'))
                         | _ \<Rightarrow> ((r, h'), (c'\<lparr>bufferPool := bytesPool_Put response' (bufferPool c')\<rparr>, w'))))))"

subsection \<open>Responses in chunks\<close>

definition joinStatusAndData :: "string \<Rightarrow> bytes \<Rightarrow> bytes" where
  "joinStatusAndData status data = status @ [respDelimiter] @ data"

function chunkLoop :: "ctx \<Rightarrow> bytes \<Rightarrow> (buffered_state, bytes) io" where
  "chunkLoop ctx body s =
     bindR (mapErr normalizeConnectionError (lift_tcp (setDeadline ctx))) (\<lambda>_ s1.
     bindR (mapErr normalizeConnectionError readResponseFrame) (\<lambda>frame s2.
       let idx = IndexByte frame respDelimiter
       in if idx = -1 then throw (Sentinel ErrCorruptedResponse) s2
          else let status = slice_to frame idx; data = slice_from frame (idx + 1)
               in if status = frameStatusNext then chunkLoop ctx (body @ data) s2
                  else if status = frameStatusOK
                  then ret (joinStatusAndData frameStatusOK (body @ data)) s2
                  else if status = frameStatusError
                  then ret (joinStatusAndData frameStatusError data) s2
                  else throw (Errorf ''unexpected frame status %q'' [Q status]) s2) s1) s"
  by pat_completeness auto
termination chunkLoop
  by (relation "measure (\<lambda>(ctx, body, s). length (inbox (snd s)))")
    (auto simp del: mapErr_Ok_iff dest: loop_step_shrinks [OF sym sym] loop_step_shrinks)

declare chunkLoop.simps [simp del]

definition SendChunked :: "ctx \<Rightarrow> bytes \<Rightarrow> (tcp_state, bytes) io" where
  "SendChunked ctx request = (\<lambda>(c, w).
     if maxMessageSize c < int (length request)
     then (Err (Errorf ''request exceeds max message size (%d)'' [D (maxMessageSize c)]), (c, w))
     else
       bindR (mapErr normalizeConnectionError (setDeadline ctx)) (\<lambda>_.
       bindR (mapErr normalizeConnectionError (on_conn (\<lambda>fd. writeFrame fd request))) (\<lambda>_.
       withBuffer (chunkLoop ctx []))) (c, w))"

subsection \<open>Handshake, connecting, closing\<close>

definition SetMaxMessageSizeUnsafe :: "int \<Rightarrow> (tcp_state, unit) io" where
  "SetMaxMessageSizeUnsafe sz = (\<lambda>(c, w).
     case newBytesPool sz of
       Ok pool \<Rightarrow> (Ok (), (c\<lparr>maxMessageSize := sz, bufferPool := pool\<rparr>, w))
     | Err e \<Rightarrow> (Err e, (c\<lparr>maxMessageSize := sz\<rparr>, w))
     | Panic p \<Rightarrow> (Panic p, (c\<lparr>maxMessageSize := sz\<rparr>, w))
     | Blocked \<Rightarrow> (Blocked, (c\<lparr>maxMessageSize := sz\<rparr>, w)))"

definition helloRequest :: "string \<Rightarrow> bytes" where
  "helloRequest tok =
     CommandHello @ '' '' @ FormatUint ProtocolVersion @ (if tok \<noteq> '''' then '' AUTH '' @ tok else [])"

definition hello :: "ctx \<Rightarrow> (tcp_state, unit) io" where
  "hello ctx = (\<lambda>(c, w).
     bindR (wrapErr ''send hello: %w'' (Send ctx (helloRequest (token c)))) (\<lambda>resp.
       case parseHelloResponse resp of
         Inl err \<Rightarrow> throw (Errorf ''parse hello response: %w'' [W err])
       | Inr info \<Rightarrow>
           if p_status info = ResponseStatusError
           then case p_err info of
                  None \<Rightarrow> ret ()
                | Some err \<Rightarrow>
                    if isProtocolCode (Some err) CodeAuthenticationFailed
                    then throw (Errorf ''%w: %w'' [W (Sentinel ErrAuthFailed), W err])
                    else throw err
           else if hi_version (p_payload info) \<noteq> ProtocolVersion
           then throw (Errorf ''%w: negotiated version %d''
             [W (Sentinel ErrCorruptedResponse), D (uint (hi_version (p_payload info)))])
           else SetMaxMessageSizeUnsafe (hi_maxMessageSize (p_payload info))) (c, w))"

definition dial :: "string \<Rightarrow> tls_Config option \<Rightarrow> (world, nat) io" where
  "dial addr tls =
     (case tls of
        None \<Rightarrow> wrapErr ''failed to dial: %w'' (net_Dial addr None)
      | Some cfg \<Rightarrow> wrapErr ''failed to dial tls: %w'' (net_Dial addr (Some cfg)))"

definition connect :: "(tcp_state, unit) io" where
  "connect = (\<lambda>(c, w).
     case dial (address c) (tlsConfig c) w of
       (Err e, w1) \<Rightarrow> (Err e, (c, w1))
     | (Panic p, w1) \<Rightarrow> (Panic p, (c, w1))
     | (Blocked, w1) \<Rightarrow> (Blocked, (c, w1))
     | (Ok fd, w1) \<Rightarrow>
         (case hello (ctx_WithTimeout (now w1) connectTimeout) (c\<lparr>connection := Some fd\<rparr>, w1) of
            (Err e, (c2, w2)) \<Rightarrow> (Err e, (c2, snd (conn_Close fd w2)))
          | (r, s2) \<Rightarrow> (r, s2)))"

definition TCPClient_Close :: "(tcp_state, unit) io" where
  "TCPClient_Close = on_conn conn_Close"

definition Reconnect :: "(tcp_state, unit) io" where
  "Reconnect s =
     (case TCPClient_Close s of
        (Panic p, s1) \<Rightarrow> (Panic p, s1)
      | (Blocked, s1) \<Rightarrow> (Blocked, s1)
      | (_, s1) \<Rightarrow> connect s1)"

definition NewTCPClient :: "string \<Rightarrow> int \<Rightarrow> int \<Rightarrow> Option list \<Rightarrow> (world, TCPClient) io" where
  "NewTCPClient addr maxSize idle opts w =
     (case applyOptions opts of
        Inl err \<Rightarrow> (Err err, w)
      | Inr settings \<Rightarrow>
          (case newBytesPool maxSize of
             Ok pool \<Rightarrow>
               (let c = \<lparr>connection = None, address = addr, maxMessageSize = maxSize,
                         idleTimeout = idle, bufferPool = pool,
                         token = opt_token settings, tlsConfig = opt_tlsConfig settings\<rparr>
                in case connect (c, w) of
                     (Ok _, (c', w')) \<Rightarrow> (Ok c', w')
                   | (Err e, (c', w')) \<Rightarrow> (Err e, w')
                   | (Panic p, (c', w')) \<Rightarrow> (Panic p, w')
                   | (Blocked, (c', w')) \<Rightarrow> (Blocked, w'))
           | Err e \<Rightarrow> (Err e, w)
           | Panic p \<Rightarrow> (Panic p, w)
           | Blocked \<Rightarrow> (Blocked, w)))"

subsection \<open>Well-formed clients\<close>

text \<open>
  The read buffers have the maximum message size and are clean; a client that was connected keeps its
  connection, also when that is closed or broken.
\<close>

definition tcp_wf :: "TCPClient \<Rightarrow> bool" where
  "tcp_wf c \<longleftrightarrow>
     bytesPool_clean (bufferPool c) \<and> int (bp_size (bufferPool c)) = maxMessageSize c \<and> connection c \<noteq> None"

definition buffered_wf :: "bytes \<Rightarrow> TCPClient \<Rightarrow> bool" where
  "buffered_wf b c \<longleftrightarrow> tcp_wf c \<and> int (length b) = maxMessageSize c"

text \<open>
  What a request may do to the network: it takes time, at most until \<open>limit\<close> if there is one, and touches
  only its own connection, which it leaves open or closed as it was.
\<close>

definition bounded_by :: "int option \<Rightarrow> int \<Rightarrow> bool" where
  "bounded_by limit d \<longleftrightarrow> (case limit of None \<Rightarrow> True | Some l \<Rightarrow> d \<le> l)"

lemma bounded_by_simps [simp]: "bounded_by None d" "bounded_by (Some l) d \<longleftrightarrow> d \<le> l"
  by (simp_all add: bounded_by_def)

definition conn_effect :: "nat \<Rightarrow> int option \<Rightarrow> world \<Rightarrow> world \<Rightarrow> bool" where
  "conn_effect fd limit w w' \<longleftrightarrow>
     now w \<le> now w' \<and> (now w' = now w \<or> bounded_by limit (now w')) \<and> (\<forall>fd'. fd' \<noteq> fd \<longrightarrow> conns w' fd' = conns w fd') \<and>
     nc_closed (conns w' fd) = nc_closed (conns w fd) \<and>
     dials w' = dials w \<and> nconns w' = nconns w \<and> dialed w' = dialed w"

lemma conn_effect_refl [simp]: "conn_effect fd limit w w"
  by (simp add: conn_effect_def)

lemma conn_effect_trans:
  "conn_effect fd limit w w1 \<Longrightarrow> conn_effect fd limit w1 w2 \<Longrightarrow> conn_effect fd limit w w2"
  by (auto simp: conn_effect_def)

lemma conn_effect_mono: "conn_effect fd (Some d) w w' \<Longrightarrow> bounded_by limit d \<Longrightarrow> conn_effect fd limit w w'"
  by (auto simp: conn_effect_def bounded_by_def split: option.splits)

lemma effects_are_conn_effects:
  "read_effect fd w w' \<Longrightarrow> nc_deadline (conns w fd) = Some d \<Longrightarrow> conn_effect fd (Some d) w w'"
  "write_effect fd sent w w' \<Longrightarrow> nc_deadline (conns w fd) = Some d \<Longrightarrow> conn_effect fd (Some d) w w'"
proof -
  have limit: "now w' = now w \<or> now w' \<le> d" if "now w \<le> now w'" "now w' \<le> max (now w) d"
    using that by linarith
  show "conn_effect fd (Some d) w w'" if "read_effect fd w w'" "nc_deadline (conns w fd) = Some d"
    using limit read_effect_frame [OF that(1)] that(2) by (auto simp: conn_effect_def)
  show "conn_effect fd (Some d) w w'" if "write_effect fd sent w w'" "nc_deadline (conns w fd) = Some d"
    using limit write_effect_frame [OF that(1)] that(2) by (auto simp: conn_effect_def)
qed

lemma setDeadline_result:
  assumes "connection c = Some fd" and "setDeadline ctx (c, w) = (r, (c', w'))"
  shows "c' = c \<and> conn_effect fd limit w w' \<and> now w' = now w \<and> nc_out (conns w' fd) = nc_out (conns w fd) \<and>
    nc_in (conns w' fd) = nc_in (conns w fd) \<and>
    (r = Ok () \<and> nc_deadline (conns w' fd) = Some (TCPClient_deadline c ctx (now w)) \<or>
     r = Err (Sentinel NetErrClosed) \<and> w' = w)"
  using assms by (auto simp: setDeadline_eq conn_effect_def split: if_splits)

lemma readResponseFrame_result:
  assumes "buffered_wf b c" and "connection c = Some fd" and "nc_deadline (conns w fd) = Some d"
    and "readResponseFrame (b, c, w) = (r, (b', c', w'))"
  shows "c' = c \<and> buffered_wf b' c \<and> returns r \<and> conn_effect fd (Some d) w w' \<and>
    nc_out (conns w' fd) = nc_out (conns w fd)"
proof -
  have "readFrameInto fd (maxMessageSize c) (b, w) = (r, (b', w'))" "c' = c"
    using assms(2,4) by (auto simp: readResponseFrame_def split: prod.splits)
  with readFrameInto_result [OF this(1)] assms(1,3) show ?thesis
    by (auto simp: buffered_wf_def effects_are_conn_effects read_effect_frame)
qed

lemma withBuffer_result:
  assumes "tcp_wf c" and "connection c = Some fd" and "withBuffer m (c, w) = (r, (c', w'))"
    and m: "\<And>b p r b1 c1 w1. buffered_wf b (c\<lparr>bufferPool := p\<rparr>) \<Longrightarrow>
      m (b, c\<lparr>bufferPool := p\<rparr>, w) = (r, (b1, c1, w1)) \<Longrightarrow>
      c1 = c\<lparr>bufferPool := p\<rparr> \<and> buffered_wf b1 c1 \<and> returns r \<and> Post r w1"
  shows "(\<exists>p. c' = c\<lparr>bufferPool := p\<rparr>) \<and> tcp_wf c' \<and> returns r \<and> Post r w'"
proof -
  obtain b p where g: "bytesPool_Get (bufferPool c) = (b, p)" by force
  have wf: "buffered_wf b (c\<lparr>bufferPool := p\<rparr>)"
    using assms(1) g readBuffers.get_fresh [of "bufferPool c"] readBuffers.get_clean [of "bufferPool c"]
      bytesPool_size_simps(1) [of "bufferPool c"] by (auto simp: buffered_wf_def tcp_wf_def)
  obtain q b1 c1 w1 where q: "m (b, c\<lparr>bufferPool := p\<rparr>, w) = (q, (b1, c1, w1))" by (metis prod_cases4)
  note m' = m [OF wf q]
  then have "r = q" "c' = c1\<lparr>bufferPool := bytesPool_Put b1 (bufferPool c1)\<rparr>" "w' = w1"
    using assms(3) g q by (cases q; auto simp: withBuffer_def)+
  with m' show ?thesis
    by (auto simp: buffered_wf_def tcp_wf_def intro!: readBuffers.put_clean)
qed

lemma on_conn_writeFrame_result:
  assumes "connection c = Some fd" and "on_conn (\<lambda>fd. writeFrame fd request) (c, w) = (r, (c', w'))"
  shows "c' = c \<and> (\<exists>k. write_effect fd (take k (frame request)) w w' \<and>
      (r = Ok () \<longrightarrow> take k (frame request) = frame request)) \<and> returns r"
proof -
  have wr: "writeFrame fd request w = (r, w')" "c' = c"
    using assms by (auto simp: on_conn_def split: prod.splits)
  from writeFrame_result [OF wr(1)] show ?thesis
  proof (elim disjE exE conjE)
    assume "r = Ok ()" "write_effect fd (frame request) w w'"
    with wr(2) show ?thesis by (intro conjI exI [of _ "length (frame request)"]) auto
  qed (use wr(2) in auto)
qed

text \<open>
  The part every request starts with: the deadline is set and the frame is written; on success the whole
  frame is out and the deadline bounds what follows.
\<close>

definition start_request :: "ctx \<Rightarrow> bytes \<Rightarrow> (tcp_state, unit) io" where
  "start_request ctx request =
     bindR (mapErr normalizeConnectionError (setDeadline ctx)) (\<lambda>_.
       mapErr normalizeConnectionError (on_conn (\<lambda>fd. writeFrame fd request)))"

lemma bindR_assoc: "bindR (bindR m f) g = bindR m (\<lambda>x. bindR (f x) g)"
  by (rule ext) (auto simp: bindR_def split: prod.splits res.splits)

lemma Send_start:
  "\<not> maxMessageSize c < int (length request) \<Longrightarrow> Send ctx request (c, w) =
     bindR (start_request ctx request) (\<lambda>_. withBuffer (mapErr normalizeConnectionError readResponseFrame)) (c, w)"
  "\<not> maxMessageSize c < int (length request) \<Longrightarrow> SendChunked ctx request (c, w) =
     bindR (start_request ctx request) (\<lambda>_. withBuffer (chunkLoop ctx [])) (c, w)"
  by (simp_all add: Send_def SendChunked_def start_request_def bindR_assoc)

lemma start_request_result:
  assumes "connection c = Some fd" and "start_request ctx request (c, w) = (r, (c', w'))"
  shows "c' = c \<and> conn_effect fd (Some (TCPClient_deadline c ctx (now w))) w w' \<and>
    nc_in (conns w' fd) = nc_in (conns w fd) \<and>
    (\<exists>k. nc_out (conns w' fd) = nc_out (conns w fd) @ take k (frame request) \<and>
      (r = Ok () \<longrightarrow> take k (frame request) = frame request)) \<and>
    (r = Ok () \<and> nc_deadline (conns w' fd) = Some (TCPClient_deadline c ctx (now w)) \<or> (\<exists>e. r = Err e))"
proof -
  let ?d = "TCPClient_deadline c ctx (now w)"
  obtain q c1 w1 where s: "setDeadline ctx (c, w) = (q, (c1, w1))" by (metis prod_cases3)
  note dl = setDeadline_result [OF assms(1) s]
  show ?thesis
  proof (cases "q = Ok ()")
    case False
    then obtain e where "q = Err e" "w1 = w" "c1 = c" using dl by blast
    with assms(2) s show ?thesis
      by (auto simp: start_request_def mapErr_def bindR_def intro: exI [of _ 0])
  next
    case True
    with dl have ok: "c1 = c" "nc_deadline (conns w1 fd) = Some ?d" "conn_effect fd (Some ?d) w w1" by auto
    obtain q2 c2 w2 where wr: "on_conn (\<lambda>fd. writeFrame fd request) (c, w1) = (q2, (c2, w2))"
      by (metis prod_cases3)
    from on_conn_writeFrame_result [OF assms(1) wr] obtain k where k: "c2 = c"
      "write_effect fd (take k (frame request)) w1 w2" "q2 = Ok () \<longrightarrow> take k (frame request) = frame request" "returns q2"
      by blast
    have eff: "conn_effect fd (Some ?d) w w2"
      using conn_effect_trans [OF ok(3) effects_are_conn_effects(2) [OF k(2) ok(2)]] .
    have "r = (case q2 of Err e \<Rightarrow> Err (normalizeConnectionError e) | q \<Rightarrow> q)" "c' = c" "w' = w2"
      using assms(2) s True ok(1) wr k(1,4)
      by (cases q2; auto simp: start_request_def io_simps)+
    with k eff dl write_effect_frame(1-3) [OF k(2)] show ?thesis
      by (cases q2) (auto simp: ok intro: exI [of _ k])
  qed
qed

text \<open>
  Every request that reads with a clean buffer until \<open>limit\<close> keeps the client well-formed, returns by
  \<open>limit\<close>, and sends a prefix of its frame.
\<close>

lemma request_result:
  assumes "tcp_wf c" and "connection c = Some fd" and "bounded_by limit (TCPClient_deadline c ctx (now w))"
    and "bindR (start_request ctx request) (\<lambda>_. withBuffer m) (c, w) = (r, (c', w'))"
    and m: "\<And>b p w r b1 c1 w1. buffered_wf b (c\<lparr>bufferPool := p\<rparr>) \<Longrightarrow>
      nc_deadline (conns w fd) = Some d \<Longrightarrow> bounded_by limit d \<Longrightarrow>
      m (b, c\<lparr>bufferPool := p\<rparr>, w) = (r, (b1, c1, w1)) \<Longrightarrow>
      c1 = c\<lparr>bufferPool := p\<rparr> \<and> buffered_wf b1 c1 \<and> returns r \<and> P r \<and>
      conn_effect fd limit w w1 \<and> nc_out (conns w1 fd) = nc_out (conns w fd)"
    and P: "\<And>e. P (Err e)" and d: "d = TCPClient_deadline c ctx (now w)"
  shows "(\<exists>p. c' = c\<lparr>bufferPool := p\<rparr>) \<and> tcp_wf c' \<and> P r \<and> conn_effect fd limit w w' \<and>
    (\<exists>k. nc_out (conns w' fd) = nc_out (conns w fd) @ take k (frame request))"
proof -
  obtain q c1 w1 where s: "start_request ctx request (c, w) = (q, (c1, w1))" by (metis prod_cases3)
  from start_request_result [OF assms(2) s] obtain k where st: "c1 = c" "conn_effect fd limit w w1"
    "nc_out (conns w1 fd) = nc_out (conns w fd) @ take k (frame request)"
    "q = Ok () \<and> nc_deadline (conns w1 fd) = Some d \<or> (\<exists>e. q = Err e)"
    using assms(3) conn_effect_mono d by blast
  show ?thesis
  proof (cases "q = Ok ()")
    case False
    with st obtain e where "q = Err e" by blast
    with assms(1,4) P s st(1-3) show ?thesis
      by (auto simp: io_simps intro: exI [of _ "bufferPool c"])
  next
    case True
    then have "withBuffer m (c, w1) = (r, (c', w'))" "nc_deadline (conns w1 fd) = Some d"
      using assms(4) s st(1,4) by (auto simp: io_simps)
    then have "(\<exists>p. c' = c\<lparr>bufferPool := p\<rparr>) \<and> tcp_wf c' \<and> returns r \<and>
        (P r \<and> conn_effect fd limit w1 w' \<and> nc_out (conns w' fd) = nc_out (conns w1 fd))"
      by (intro withBuffer_result [OF assms(1,2), where Post = "\<lambda>r w'. P r \<and> conn_effect fd limit w1 w' \<and>
          nc_out (conns w' fd) = nc_out (conns w1 fd)"])
        (use m assms(3) d in \<open>blast\<close>)+
    with st(2,3) conn_effect_trans show ?thesis by metis
  qed
qed

lemma mapErr_eq:
  assumes "mapErr g m s = (r, s')"
  obtains q where "m s = (q, s')" "returns r = returns q"
  using assms by (auto simp: mapErr_def split: prod.splits res.splits)

lemma oversized_request:
  assumes "maxMessageSize c < int (length request)"
  shows "Send ctx request (c, w) =
      (Err (Errorf ''request exceeds max message size (%d)'' [D (maxMessageSize c)]), (c, w))"
    and "SendChunked ctx request (c, w) =
      (Err (Errorf ''request exceeds max message size (%d)'' [D (maxMessageSize c)]), (c, w))"
    and "TCPClient_Stream ctx request handle h (c, w) =
      ((Err (Errorf ''request exceeds max message size (%d)'' [D (maxMessageSize c)]), h), (c, w))"
  using assms by (simp_all add: Send_def SendChunked_def TCPClient_Stream_def)

lemma read_response_result:
  assumes "buffered_wf b c" and "connection c = Some fd" and "nc_deadline (conns w fd) = Some d" and "bounded_by limit d"
    and "mapErr g readResponseFrame (b, c, w) = (r, (b', c', w'))"
  shows "c' = c \<and> buffered_wf b' c' \<and> returns r \<and> conn_effect fd limit w w' \<and>
    nc_out (conns w' fd) = nc_out (conns w fd)"
proof -
  from assms(5) obtain q where "readResponseFrame (b, c, w) = (q, (b', c', w'))" "returns r = returns q"
    by (rule mapErr_eq)
  with readResponseFrame_result [OF assms(1-3) this(1)] conn_effect_mono [OF _ assms(4)] show ?thesis
    by auto
qed

lemma Send_result:
  assumes "tcp_wf c" and "connection c = Some fd" and "Send ctx request (c, w) = (r, (c', w'))"
  shows "(\<exists>p. c' = c\<lparr>bufferPool := p\<rparr>) \<and> tcp_wf c' \<and> returns r \<and>
    conn_effect fd (Some (TCPClient_deadline c ctx (now w))) w w' \<and>
    (\<exists>k. nc_out (conns w' fd) = nc_out (conns w fd) @ take k (frame request))"
proof (cases "maxMessageSize c < int (length request)")
  case True
  with assms show ?thesis
    by (auto simp: oversized_request intro: exI [of _ "bufferPool c"] exI [of _ 0])
next
  case False
  with assms(3) have "bindR (start_request ctx request)
      (\<lambda>_. withBuffer (mapErr normalizeConnectionError readResponseFrame)) (c, w) = (r, (c', w'))"
    by (simp add: Send_start)
  then show ?thesis
    by (rule request_result [OF assms(1,2) _ _ _ _ refl, rotated])
      (drule (1) read_response_result [rotated 3], simp_all add: assms(2))
qed

text \<open>The limit of a request that resets its deadline for every frame is the one of its context, if any.\<close>

lemma deadline_le: "ctx_deadline ctx = Some l \<Longrightarrow> TCPClient_deadline c ctx t \<le> l"
  by (simp add: TCPClient_deadline_def Let_def)

lemma deadline_bufferPool [simp]: "TCPClient_deadline (c\<lparr>bufferPool := p\<rparr>) ctx t = TCPClient_deadline c ctx t"
  by (simp add: TCPClient_deadline_def)

lemma loop_step_result:
  assumes "buffered_wf b c" and "connection c = Some fd" and "\<And>t. bounded_by limit (TCPClient_deadline c ctx t)"
    and "mapErr g (lift_tcp (setDeadline ctx)) (b, c, w) = (q, s1)"
  shows "returns q \<and> (\<exists>w1. s1 = (b, c, w1) \<and> conn_effect fd limit w w1 \<and>
      nc_out (conns w1 fd) = nc_out (conns w fd)) \<and>
    (q = Ok () \<longrightarrow> mapErr g' readResponseFrame s1 = (r, s2) \<longrightarrow>
      (\<exists>b' w'. s2 = (b', c, w') \<and> buffered_wf b' c \<and> returns r \<and> conn_effect fd limit w w' \<and>
        nc_out (conns w' fd) = nc_out (conns w fd)))"
proof -
  obtain q0 c1 w1 where s: "setDeadline ctx (c, w) = (q0, (c1, w1))" by (metis prod_cases3)
  note dl = setDeadline_result [OF assms(2) s, of limit]
  have s1: "s1 = (b, c, w1)" "q = (case q0 of Err e \<Rightarrow> Err (g e) | x \<Rightarrow> x)"
    using assms(4) s dl by (auto simp: lift_tcp_def mapErr_def split: res.splits)
  show ?thesis
  proof (cases "q = Ok ()")
    case False
    then show ?thesis using s1 dl by auto
  next
    case True
    then have "nc_deadline (conns w1 fd) = Some (TCPClient_deadline c ctx (now w))"
      using s1 dl by auto
    note rd = read_response_result [OF assms(1,2) this assms(3), where g = g' and r = r]
    obtain b' c' w' where s2: "s2 = (b', c', w')" by (cases s2)
    show ?thesis
      using rd [of b' c' w'] dl s1 s2 True conn_effect_trans [of fd limit w w1 w'] by auto
  qed
qed

lemma chunkLoop_result:
  assumes "buffered_wf b c" and "connection c = Some fd" and "\<And>t. bounded_by limit (TCPClient_deadline c ctx t)"
    and "chunkLoop ctx body (b, c, w) = (r, s')"
  shows "\<exists>b' w'. s' = (b', c, w') \<and> buffered_wf b' c \<and> returns r \<and> conn_effect fd limit w w' \<and>
    nc_out (conns w' fd) = nc_out (conns w fd)"
  using assms(1,3,4)
proof (induction ctx body "(b, c, w)" arbitrary: b w r s' rule: chunkLoop.induct)
  case (1 ctx body b w)
  let ?n = "normalizeConnectionError"
  obtain q s1 where q: "mapErr ?n (lift_tcp (setDeadline ctx)) (b, c, w) = (q, s1)" by (metis surj_pair)
  obtain r2 s2 where r2: "mapErr ?n readResponseFrame s1 = (r2, s2)" by (metis surj_pair)
  note loop = "1.prems"(3) [unfolded chunkLoop.simps [of ctx body "(b, c, w)"]]
  note step = loop_step_result [OF "1.prems"(1) assms(2) "1.prems"(2) q, where g' = ?n and r = r2 and ?s2.0 = s2]
  show ?case
  proof (cases "q = Ok () \<and> (\<exists>m. r2 = Ok m)")
    case False
    with step "1.prems"(1) loop q r2 show ?thesis
      by (cases q; cases r2) (auto simp: io_simps)
  next
    case True
    then obtain m where m: "r2 = Ok m" by blast
    from step r2 True obtain b' w' where s2: "s2 = (b', c, w')" "buffered_wf b' c" "conn_effect fd limit w w'"
      "nc_out (conns w' fd) = nc_out (conns w fd)" by auto
    let ?i = "IndexByte m respDelimiter"
    show ?thesis
    proof (cases "?i \<noteq> -1 \<and> slice_to m ?i = frameStatusNext")
      case False
      have "s' = s2 \<and> returns r"
        using loop q r2 m True False
        by (auto simp: io_simps Let_def split: if_splits)
      with s2 show ?thesis by auto
    next
      case next_chunk: True
      let ?body = "body @ slice_from m (?i + 1)"
      have rest: "chunkLoop ctx ?body s2 = (r, s')"
        using loop q r2 m True next_chunk
        by (auto simp: io_simps Let_def)
      have "\<exists>b'' w''. s' = (b'', c, w'') \<and> buffered_wf b'' c \<and> returns r \<and> conn_effect fd limit w' w'' \<and>
          nc_out (conns w'' fd) = nc_out (conns w' fd)"
        by (rule "1.hyps") (use q r2 m True next_chunk rest s2 "1.prems"(2) in auto)
      with s2 conn_effect_trans show ?thesis by metis
    qed
  qed
qed

text \<open>
  The latest time a request that resets its deadline for every frame can return: its context's deadline,
  or no limit. A limit that is at least every deadline stands for both.
\<close>

lemma SendChunked_result:
  assumes "tcp_wf c" and "connection c = Some fd" and "\<And>t. bounded_by limit (TCPClient_deadline c ctx t)"
    and "SendChunked ctx request (c, w) = (r, (c', w'))"
  shows "(\<exists>p. c' = c\<lparr>bufferPool := p\<rparr>) \<and> tcp_wf c' \<and> returns r \<and> conn_effect fd limit w w' \<and>
    (\<exists>k. nc_out (conns w' fd) = nc_out (conns w fd) @ take k (frame request))"
proof (cases "maxMessageSize c < int (length request)")
  case True
  with assms show ?thesis
    by (auto simp: oversized_request intro: exI [of _ "bufferPool c"] exI [of _ 0])
next
  case False
  with assms(4) have "bindR (start_request ctx request) (\<lambda>_. withBuffer (chunkLoop ctx [])) (c, w) = (r, (c', w'))"
    by (simp add: Send_start)
  then show ?thesis
    by (rule request_result [OF assms(1,2,3) _ _ _ refl])
      (drule chunkLoop_result [where fd = fd and limit = limit, rotated 3], auto simp: assms(2,3))
qed

lemma streamLoop_result:
  assumes "buffered_wf b c" and "connection c = Some fd" and "\<And>t. bounded_by limit (TCPClient_deadline c ctx t)"
    and "streamLoop ctx handle h (b, c, w) = ((r, h'), s')"
  shows "\<exists>b' w' e. s' = (b', c, w') \<and> buffered_wf b' c \<and> r = Err e \<and> conn_effect fd limit w w' \<and>
    nc_out (conns w' fd) = nc_out (conns w fd)"
  using assms(1,3,4)
proof (induction ctx handle h "(b, c, w)" arbitrary: b w r s' rule: streamLoop.induct)
  case (1 ctx handle h b w)
  let ?n = "normalizeConnectionError"
  obtain q s1 where q: "mapErr ?n (lift_tcp (setDeadline ctx)) (b, c, w) = (q, s1)" by (metis surj_pair)
  obtain r2 s2 where r2: "mapErr ?n readResponseFrame s1 = (r2, s2)" by (metis surj_pair)
  note loop = "1.prems"(3) [unfolded streamLoop.simps [of ctx handle h "(b, c, w)"]]
  note step = loop_step_result [OF "1.prems"(1) assms(2) "1.prems"(2) q, where g' = ?n and r = r2 and ?s2.0 = s2]
  show ?case
  proof (cases "q = Ok () \<and> (\<exists>m. r2 = Ok m)")
    case False
    with step "1.prems"(1) loop q r2 show ?thesis
      by (cases q; cases r2) auto
  next
    case True
    then obtain m where m: "r2 = Ok m" by blast
    from step r2 True obtain b' w' where s2: "s2 = (b', c, w')" "buffered_wf b' c" "conn_effect fd limit w w'"
      "nc_out (conns w' fd) = nc_out (conns w fd)" by auto
    obtain e h1 where h1: "handle m h = (e, h1)" by force
    show ?thesis
    proof (cases e)
      case (Some err)
      with loop q r2 m True h1 s2 show ?thesis by auto
    next
      case None
      have rest: "streamLoop ctx handle h1 s2 = ((r, h'), s')"
        using loop q r2 m True h1 None by auto
      have "\<exists>b'' w'' e. s' = (b'', c, w'') \<and> buffered_wf b'' c \<and> r = Err e \<and> conn_effect fd limit w' w'' \<and>
          nc_out (conns w'' fd) = nc_out (conns w' fd)"
        by (rule "1.hyps")
          (use q [symmetric] r2 [symmetric] m True h1 [symmetric] None rest s2 "1.prems"(2) in auto)
      with s2 conn_effect_trans show ?thesis by metis
    qed
  qed
qed

lemma Stream_result:
  assumes "tcp_wf c" and "connection c = Some fd" and "\<And>t. bounded_by limit (TCPClient_deadline c ctx t)"
    and "TCPClient_Stream ctx request handle h (c, w) = ((r, h'), (c', w'))"
  shows "(\<exists>p. c' = c\<lparr>bufferPool := p\<rparr>) \<and> tcp_wf c' \<and> (\<exists>e. r = Err e) \<and> conn_effect fd limit w w' \<and>
    (\<exists>k. nc_out (conns w' fd) = nc_out (conns w fd) @ take k (frame request))"
proof (cases "maxMessageSize c < int (length request)")
  case True
  with assms show ?thesis
    by (auto simp: oversized_request intro: exI [of _ "bufferPool c"] exI [of _ 0])
next
  case False
  let ?m = "\<lambda>s. case streamLoop ctx handle h s of ((r, h'), s') \<Rightarrow> (r, s')"
  have "(r, (c', w')) = bindR (start_request ctx request) (\<lambda>_. withBuffer ?m) (c, w)"
    using assms(4) False
    by (auto simp: TCPClient_Stream_def start_request_def [symmetric] bindR_def withBuffer_def
      split: prod.splits res.splits)
  then show ?thesis
    by (rule request_result [OF assms(1,2,3) sym _ _ refl])
      (auto simp: assms(2,3) split: prod.splits dest!: streamLoop_result [where fd = fd and limit = limit, rotated 3])
qed

subsection \<open>Handshake and reconnecting\<close>

text \<open>What no operation on a client changes: the address, the credentials and the timeout.\<close>

definition same_settings :: "TCPClient \<Rightarrow> TCPClient \<Rightarrow> bool" where
  "same_settings c c' \<longleftrightarrow>
     address c' = address c \<and> token c' = token c \<and> tlsConfig c' = tlsConfig c \<and> idleTimeout c' = idleTimeout c"

lemma same_settings_simps [simp]:
  "same_settings c c"
  "same_settings c (c\<lparr>bufferPool := p\<rparr>)"
  "same_settings c (c\<lparr>connection := fd\<rparr>)"
  "same_settings c (c\<lparr>maxMessageSize := n, bufferPool := p\<rparr>)"
  by (simp_all add: same_settings_def)

lemma same_settings_trans: "same_settings a b \<Longrightarrow> same_settings b c \<Longrightarrow> same_settings a c"
  by (simp add: same_settings_def)

lemma helloFields_bounds:
  assumes "helloFields data = Some info"
  shows "0 < hi_maxMessageSize info \<and> hi_maxMessageSize info < 2 ^ 31"
proof -
  obtain f m where m: "ParseUint f 31 = Some m" "m \<noteq> 0" "hi_maxMessageSize info = uint m"
    using assms unfolding helloFields_def
    by (auto split: list.splits Option.bind_splits if_splits)
  have "unat m < 2 ^ 31" using ParseUint_bound [OF m(1)] by simp
  then have "uint m < 2 ^ 31" by (simp only: uint_nat of_nat_less_numeral_power_cancel_iff)
  moreover have "0 < uint m" using m(2) unsigned_greater_eq [of m] unsigned_eq_0_iff [of m] by (auto simp: order_less_le)
  ultimately show ?thesis using m(3) by simp
qed

lemma hello_result:
  assumes "tcp_wf c" and "connection c = Some fd" and "hello ctx (c, w) = (r, (c', w'))"
  shows "tcp_wf c' \<and> returns r \<and> same_settings c c' \<and> connection c' = connection c \<and>
    conn_effect fd (Some (TCPClient_deadline c ctx (now w))) w w'"
    and "r = Ok () \<Longrightarrow> \<exists>data info s1. helloFields data = Some info \<and> hi_version info = ProtocolVersion \<and>
      Send ctx (helloRequest (token c)) (c, w) = (Ok (frameStatusOK @ respDelimiter # data), s1) \<and>
      maxMessageSize c' = hi_maxMessageSize info"
proof -
  obtain q c1 w1 where s: "Send ctx (helloRequest (token c)) (c, w) = (q, (c1, w1))" by (metis prod_cases3)
  note send = Send_result [OF assms(1,2) s]
  have "(tcp_wf c' \<and> returns r \<and> same_settings c c' \<and> connection c' = connection c \<and>
      conn_effect fd (Some (TCPClient_deadline c ctx (now w))) w w') \<and>
    (r = Ok () \<longrightarrow> (\<exists>data info s1. helloFields data = Some info \<and> hi_version info = ProtocolVersion \<and>
      Send ctx (helloRequest (token c)) (c, w) = (Ok (frameStatusOK @ respDelimiter # data), s1) \<and>
      maxMessageSize c' = hi_maxMessageSize info))"
  proof (cases "\<exists>resp info. q = Ok resp \<and> parseHelloResponse resp = Inr (success info) \<and> hi_version info = ProtocolVersion")
    case False
    have "(\<exists>e. r = Err e) \<and> c' = c1 \<and> w' = w1"
    proof (cases q)
      case (Ok resp)
      show ?thesis
      proof (cases "parseHelloResponse resp")
        case (Inl e)
        with assms(3) s Ok show ?thesis by (auto simp: hello_def io_simps)
      next
        case (Inr p)
        from hello.parsed_status [OF this] Inr False Ok assms(3) s show ?thesis
          by (auto simp: hello_def io_simps split: if_splits)
      qed
    qed (use assms(3) s send in \<open>auto simp: hello_def io_simps\<close>)
    with send show ?thesis by auto
  next
    case True
    then obtain resp info where ok: "q = Ok resp" "parseHelloResponse resp = Inr (success info)"
      "hi_version info = ProtocolVersion" by blast
    from ok(2) obtain data where data: "resp = frameStatusOK @ respDelimiter # data" "helloFields data = Some info"
      by (auto simp: hello.success_iff or_corrupted_def split: option.splits)
    note bounds = helloFields_bounds [OF data(2)]
    have "hello ctx (c, w) = SetMaxMessageSizeUnsafe (hi_maxMessageSize info) (c1, w1)"
      using s ok by (simp add: hello_def io_simps)
    with assms(3) bounds have "r = Ok ()" "w' = w1"
      "\<exists>p. newBytesPool (hi_maxMessageSize info) = Ok p \<and> c' = c1\<lparr>maxMessageSize := hi_maxMessageSize info, bufferPool := p\<rparr>"
      by (auto simp: SetMaxMessageSizeUnsafe_def newBytesPool_def)
    with send data ok s show ?thesis
      by (auto simp: tcp_wf_def newBytesPool_clean same_settings_def)
  qed
  then show "tcp_wf c' \<and> returns r \<and> same_settings c c' \<and> connection c' = connection c \<and>
      conn_effect fd (Some (TCPClient_deadline c ctx (now w))) w w'"
    "r = Ok () \<Longrightarrow> \<exists>data info s1. helloFields data = Some info \<and> hi_version info = ProtocolVersion \<and>
      Send ctx (helloRequest (token c)) (c, w) = (Ok (frameStatusOK @ respDelimiter # data), s1) \<and>
      maxMessageSize c' = hi_maxMessageSize info" by blast+
qed

definition buffers_wf :: "TCPClient \<Rightarrow> bool" where
  "buffers_wf c \<longleftrightarrow> bytesPool_clean (bufferPool c) \<and> int (bp_size (bufferPool c)) = maxMessageSize c"

lemma tcp_wf_iff: "tcp_wf c \<longleftrightarrow> buffers_wf c \<and> connection c \<noteq> None"
  by (simp add: tcp_wf_def buffers_wf_def)

lemma buffers_wf_connection [simp]: "buffers_wf (c\<lparr>connection := fd\<rparr>) = buffers_wf c"
  by (simp add: buffers_wf_def)

lemma dial_result:
  assumes "dial addr tls w = (r, w')"
  shows "(\<exists>e. r = Err e \<and> conns w' = conns w \<and> nconns w' = nconns w) \<or>
      (r = Ok (nconns w) \<and> nconns w' = Suc (nconns w) \<and> (\<forall>fd. fd \<noteq> nconns w \<longrightarrow> conns w' fd = conns w fd) \<and>
       \<not> nc_closed (conns w' (nconns w)) \<and> nc_out (conns w' (nconns w)) = [])"
    and "now w \<le> now w'" and "dialed w' = dialed w @ [(addr, tls)]"
  using assms
  by (auto simp: dial_def wrapErr_def mapErr_def net_Dial_def Let_def
    split: option.splits list.splits sum.splits prod.splits)

text \<open>
  Connecting opens at most one connection, the next one, and closes it again when the handshake fails;
  the client is well-formed in every case.
\<close>

lemma connect_result:
  assumes "buffers_wf c" and "connect (c, w) = (r, (c', w'))"
  shows "returns r \<and> buffers_wf c' \<and> same_settings c c' \<and> now w \<le> now w' \<and>
    (\<forall>fd. fd \<noteq> nconns w \<longrightarrow> conns w' fd = conns w fd) \<and> dialed w' = dialed w @ [(address c, tlsConfig c)] \<and>
    ((\<exists>e. r = Err e \<and> c' = c \<and> nconns w' = nconns w \<and> conns w' = conns w) \<or>
     (connection c' = Some (nconns w) \<and> nconns w' = Suc (nconns w) \<and>
       (r = Ok () \<and> \<not> nc_closed (conns w' (nconns w)) \<or> (\<exists>e. r = Err e) \<and> nc_closed (conns w' (nconns w)))))"
    and "r = Ok () \<Longrightarrow> 0 < maxMessageSize c' \<and> maxMessageSize c' < 2 ^ 31"
proof -
  obtain q w1 where d: "dial (address c) (tlsConfig c) w = (q, w1)" by force
  note dial = dial_result [OF d]
  have "(returns r \<and> buffers_wf c' \<and> same_settings c c' \<and> now w \<le> now w' \<and>
    (\<forall>fd. fd \<noteq> nconns w \<longrightarrow> conns w' fd = conns w fd) \<and> dialed w' = dialed w @ [(address c, tlsConfig c)] \<and>
    ((\<exists>e. r = Err e \<and> c' = c \<and> nconns w' = nconns w \<and> conns w' = conns w) \<or>
     (connection c' = Some (nconns w) \<and> nconns w' = Suc (nconns w) \<and>
       (r = Ok () \<and> \<not> nc_closed (conns w' (nconns w)) \<or> (\<exists>e. r = Err e) \<and> nc_closed (conns w' (nconns w)))))) \<and>
    (r = Ok () \<longrightarrow> 0 < maxMessageSize c' \<and> maxMessageSize c' < 2 ^ 31)"
  proof (cases "\<exists>e. q = Err e")
    case True
    with assms d dial show ?thesis by (auto simp: connect_def)
  next
    case False
    let ?fd = "nconns w" and ?ctx = "ctx_WithTimeout (now w1) connectTimeout"
    let ?c = "c\<lparr>connection := Some ?fd\<rparr>"
    from False dial have q: "q = Ok ?fd" by auto
    have wf: "tcp_wf ?c" "connection ?c = Some ?fd" using assms(1) by (simp_all add: tcp_wf_iff)
    obtain h c2 w2 where h: "hello ?ctx (?c, w1) = (h, (c2, w2))" by (metis prod_cases3)
    note hello = hello_result [OF wf h]
    have settings: "same_settings c c2" using hello by (auto simp: same_settings_def)
    have net: "now w \<le> now w2" "\<forall>fd. fd \<noteq> ?fd \<longrightarrow> conns w2 fd = conns w fd" "nconns w2 = Suc ?fd"
      "dialed w2 = dialed w @ [(address c, tlsConfig c)]" "\<not> nc_closed (conns w2 ?fd)"
      using hello(1) dial q by (auto simp: conn_effect_def)
    show ?thesis
    proof (cases h)
      case (Ok u)
      then have "r = Ok ()" "c' = c2" "w' = w2" using assms(2) d q h by (auto simp: connect_def)
      with hello settings net Ok helloFields_bounds show ?thesis by (fastforce simp: tcp_wf_iff)
    next
      case (Err e)
      then have "r = Err e" "c' = c2" "w' = snd (conn_Close ?fd w2)"
        using assms(2) d q h by (auto simp: connect_def)
      with hello settings net show ?thesis by (auto simp: tcp_wf_iff conn_Close_def)
    qed (use hello in auto)
  qed
  then show "returns r \<and> buffers_wf c' \<and> same_settings c c' \<and> now w \<le> now w' \<and>
    (\<forall>fd. fd \<noteq> nconns w \<longrightarrow> conns w' fd = conns w fd) \<and> dialed w' = dialed w @ [(address c, tlsConfig c)] \<and>
    ((\<exists>e. r = Err e \<and> c' = c \<and> nconns w' = nconns w \<and> conns w' = conns w) \<or>
     (connection c' = Some (nconns w) \<and> nconns w' = Suc (nconns w) \<and>
       (r = Ok () \<and> \<not> nc_closed (conns w' (nconns w)) \<or> (\<exists>e. r = Err e) \<and> nc_closed (conns w' (nconns w)))))"
    "r = Ok () \<Longrightarrow> 0 < maxMessageSize c' \<and> maxMessageSize c' < 2 ^ 31" by blast+
qed

lemma Reconnect_result:
  assumes "tcp_wf c" and "connection c = Some fd" and "fd < nconns w" and "Reconnect (c, w) = (r, (c', w'))"
  shows "returns r \<and> tcp_wf c' \<and> same_settings c c' \<and> now w \<le> now w' \<and> nc_closed (conns w' fd) \<and>
    (\<forall>fd'. fd' \<noteq> fd \<longrightarrow> fd' \<noteq> nconns w \<longrightarrow> conns w' fd' = conns w fd') \<and>
    (r = Ok () \<longrightarrow> connection c' = Some (nconns w) \<and> \<not> nc_closed (conns w' (nconns w)) \<and>
       0 < maxMessageSize c' \<and> maxMessageSize c' < 2 ^ 31)"
    and "connection c' = Some fd' \<Longrightarrow> fd' < nconns w'" and "nconns w \<le> nconns w'"
proof -
  obtain q w1 where cl: "conn_Close fd w = (q, w1)" by force
  then have w1: "nc_closed (conns w1 fd)" "\<forall>fd'. fd' \<noteq> fd \<longrightarrow> conns w1 fd' = conns w fd'"
    "nconns w1 = nconns w" "now w1 = now w" "returns q"
    by (auto simp: conn_Close_def split: if_splits)
  have "connect (c, w1) = (r, (c', w'))"
    using assms(2,4) cl w1(5) by (cases q) (auto simp: Reconnect_def TCPClient_Close_def on_conn_def)
  note conn = connect_result [OF _ this]
  have wf: "buffers_wf c" using assms(1) by (simp add: tcp_wf_iff)
  from conn(1) [OF wf] conn(2) [OF wf] w1 assms(2,3)
  show "returns r \<and> tcp_wf c' \<and> same_settings c c' \<and> now w \<le> now w' \<and> nc_closed (conns w' fd) \<and>
    (\<forall>fd'. fd' \<noteq> fd \<longrightarrow> fd' \<noteq> nconns w \<longrightarrow> conns w' fd' = conns w fd') \<and>
    (r = Ok () \<longrightarrow> connection c' = Some (nconns w) \<and> \<not> nc_closed (conns w' (nconns w)) \<and>
       0 < maxMessageSize c' \<and> maxMessageSize c' < 2 ^ 31)"
    by (auto simp: tcp_wf_iff)
  from conn(1) [OF wf] w1 assms(2,3) show "connection c' = Some fd' \<Longrightarrow> fd' < nconns w'" "nconns w \<le> nconns w'"
    by auto
qed

lemma NewTCPClient_result:
  assumes "0 \<le> maxSize" and "NewTCPClient addr maxSize idle opts w = (r, w')"
  shows "returns r" and "now w \<le> now w'" and "nconns w \<le> nconns w'"
    and "fd \<noteq> nconns w \<Longrightarrow> conns w' fd = conns w fd"
    and "r = Ok c \<Longrightarrow> tcp_wf c \<and> connection c = Some (nconns w) \<and> nconns w' = Suc (nconns w) \<and>
      \<not> nc_closed (conns w' (nconns w)) \<and>
      0 < maxMessageSize c \<and> maxMessageSize c < 2 ^ 31 \<and> address c = addr \<and> idleTimeout c = idle \<and>
      applyOptions opts = Inr \<lparr>opt_token = token c, opt_tlsConfig = tlsConfig c\<rparr>"
    and "r = Err e \<Longrightarrow> nconns w' = nconns w \<or> nconns w' = Suc (nconns w) \<and> nc_closed (conns w' (nconns w))"
proof -
  have "returns r \<and> now w \<le> now w' \<and> nconns w \<le> nconns w' \<and> (fd \<noteq> nconns w \<longrightarrow> conns w' fd = conns w fd) \<and>
    (r = Ok c \<longrightarrow> tcp_wf c \<and> connection c = Some (nconns w) \<and> nconns w' = Suc (nconns w) \<and>
      \<not> nc_closed (conns w' (nconns w)) \<and>
      0 < maxMessageSize c \<and> maxMessageSize c < 2 ^ 31 \<and> address c = addr \<and> idleTimeout c = idle \<and>
      applyOptions opts = Inr \<lparr>opt_token = token c, opt_tlsConfig = tlsConfig c\<rparr>) \<and>
    (r = Err e \<longrightarrow> nconns w' = nconns w \<or> nconns w' = Suc (nconns w) \<and> nc_closed (conns w' (nconns w)))"
  proof (cases "applyOptions opts")
    case (Inl err)
    with assms(2) show ?thesis by (auto simp: NewTCPClient_def)
  next
    case (Inr settings)
    obtain pool where pool: "newBytesPool maxSize = Ok pool"
      using assms(1) by (simp add: newBytesPool_def)
    define c0 where "c0 = \<lparr>connection = None, address = addr, maxMessageSize = maxSize, idleTimeout = idle,
      bufferPool = pool, token = opt_token settings, tlsConfig = opt_tlsConfig settings\<rparr>"
    have wf: "buffers_wf c0" using newBytesPool_clean [OF pool] by (simp add: buffers_wf_def c0_def)
    obtain q c1 w1 where q: "connect (c0, w) = (q, (c1, w1))" by (metis prod_cases3)
    note conn = connect_result [OF wf q]
    have "w' = w1" "r = (case q of Ok _ \<Rightarrow> Ok c1 | Err e \<Rightarrow> Err e | Panic p \<Rightarrow> Panic p | Blocked \<Rightarrow> Blocked)"
      using assms(2) Inr pool q by (auto simp: NewTCPClient_def c0_def [symmetric] split: res.splits)
    with conn Inr show ?thesis
      by (cases q) (auto simp: tcp_wf_iff same_settings_def c0_def)
  qed
  then show "returns r" "now w \<le> now w'" "nconns w \<le> nconns w'"
    "fd \<noteq> nconns w \<Longrightarrow> conns w' fd = conns w fd"
    "r = Ok c \<Longrightarrow> tcp_wf c \<and> connection c = Some (nconns w) \<and> nconns w' = Suc (nconns w) \<and>
      \<not> nc_closed (conns w' (nconns w)) \<and>
      0 < maxMessageSize c \<and> maxMessageSize c < 2 ^ 31 \<and> address c = addr \<and> idleTimeout c = idle \<and>
      applyOptions opts = Inr \<lparr>opt_token = token c, opt_tlsConfig = tlsConfig c\<rparr>"
    "r = Err e \<Longrightarrow> nconns w' = nconns w \<or> nconns w' = Suc (nconns w) \<and> nc_closed (conns w' (nconns w))" by blast+
qed

subsection \<open>Exchanges\<close>

lemma withBuffer_Ok:
  assumes "withBuffer m (c, w) = (Ok x, (c', w'))"
  obtains b p b1 c1 where "bytesPool_Get (bufferPool c) = (b, p)"
    "m (b, c\<lparr>bufferPool := p\<rparr>, w) = (Ok x, (b1, c1, w'))"
    "c' = c1\<lparr>bufferPool := bytesPool_Put b1 (bufferPool c1)\<rparr>"
  using assms by (auto simp: withBuffer_def split: prod.splits res.splits)

lemma readResponseFrame_sound:
  assumes "connection c = Some fd" and "readResponseFrame (b, c, w) = (Ok m, (b', c', w'))"
  shows "\<exists>pre. nc_in (conns w fd) = pre @ nc_in (conns w' fd) \<and> map snd pre = map RxByte (frame m)"
    and "nc_out (conns w' fd) = nc_out (conns w fd)" and "c' = c"
proof -
  have r: "readFrameInto fd (maxMessageSize c) (b, w) = (Ok m, (b', w'))" "c' = c"
    using assms by (auto simp: readResponseFrame_def split: prod.splits)
  from readFrameInto_sound [OF r(1)] show "\<exists>pre. nc_in (conns w fd) = pre @ nc_in (conns w' fd) \<and>
    map snd pre = map RxByte (frame m)" .
  from readFrameInto_result(1) [OF r(1)] show "nc_out (conns w' fd) = nc_out (conns w fd)"
    by (rule read_effect_frame)
  show "c' = c" by fact
qed

lemma start_request_Ok:
  assumes "connection c = Some fd" and "start_request ctx request (c, w) = (Ok u, (c', w'))"
  shows "c' = c" and "nc_out (conns w' fd) = nc_out (conns w fd) @ frame request"
    and "nc_in (conns w' fd) = nc_in (conns w fd)"
  using start_request_result [OF assms] by auto

lemma Send_Ok:
  assumes "Send ctx request (c, w) = (Ok m, (c', w'))" and "connection c = Some fd"
  obtains w1 b p b1 where "start_request ctx request (c, w) = (Ok (), (c, w1))"
    "readResponseFrame (b, c\<lparr>bufferPool := p\<rparr>, w1) = (Ok m, (b1, c\<lparr>bufferPool := p\<rparr>, w'))"
proof -
  have "\<not> maxMessageSize c < int (length request)"
    using assms(1) by (auto simp: oversized_request)
  with assms(1) have "bindR (start_request ctx request)
      (\<lambda>_. withBuffer (mapErr normalizeConnectionError readResponseFrame)) (c, w) = (Ok m, (c', w'))"
    by (simp add: Send_start)
  then obtain c1 w1 where s: "start_request ctx request (c, w) = (Ok (), (c1, w1))"
    and r: "withBuffer (mapErr normalizeConnectionError readResponseFrame) (c1, w1) = (Ok m, (c', w'))"
    by (auto elim: bindR_Ok)
  from start_request_Ok(1) [OF assms(2) s] have c1: "c1 = c" .
  from r obtain b p b1 c2 where
    rd: "mapErr normalizeConnectionError readResponseFrame (b, c1\<lparr>bufferPool := p\<rparr>, w1) = (Ok m, (b1, c2, w'))"
    by (rule withBuffer_Ok)
  with readResponseFrame_sound(3) [of "c1\<lparr>bufferPool := p\<rparr>" fd b w1 m b1 c2 w'] assms(2) c1 s that show thesis
    by simp
qed

text \<open>C2: When \<^verbatim>\<open>Send\<close> returns a response, it wrote exactly the request's frame and consumed exactly
  one frame, whose payload is the response, whatever the timing and splitting of reads and writes.\<close>

theorem Send_exchanges_one_frame:
  assumes "connection c = Some fd" and "Send ctx request (c, w) = (Ok m, (c', w'))"
  shows "nc_out (conns w' fd) = nc_out (conns w fd) @ frame request \<and>
    (\<exists>pre. nc_in (conns w fd) = pre @ nc_in (conns w' fd) \<and> map snd pre = map RxByte (frame m))"
  using assms(2,1)
proof (cases rule: Send_Ok)
  case (1 w1 b p b1)
  have "connection (c\<lparr>bufferPool := p\<rparr>) = Some fd" using assms(1) by simp
  note read = readResponseFrame_sound [OF this 1(2)] and start = start_request_Ok [OF assms(1) 1(1)]
  from read start show ?thesis by simp
qed

lemma writeFrame_at_once:
  assumes "nc_tx (conns w fd) = []" and "\<not> nc_closed (conns w fd)" and "\<not> expired (nc_deadline (conns w fd)) (now w)"
    and "length p < 2 ^ 32"
  shows "writeFrame fd p w =
    (Ok (), w\<lparr>conns := (conns w)(fd := (conns w fd)\<lparr>nc_out := nc_out (conns w fd) @ frame p\<rparr>)\<rparr>)"
proof -
  have all: "writeAll fd data v = (Ok (), v\<lparr>conns := (conns v)(fd := (conns v fd)\<lparr>nc_out := nc_out (conns v fd) @ data\<rparr>)\<rparr>)"
    if "nc_tx (conns v fd) = []" "\<not> nc_closed (conns v fd)" "\<not> expired (nc_deadline (conns v fd)) (now v)" for data v
    using that by (cases "data = []") (auto simp: writeAll.simps conn_Write_def Let_def)
  have "\<not> uint maxFramePayloadSize < int (length p)" using assms(4) by (simp add: maxFramePayloadSize_def)
  then show ?thesis
    using assms by (simp add: writeFrame_def Let_def bindR_def all frame_def)
qed

text \<open>What one exchange on a responsive connection leads to.\<close>

lemma Send_answered:
  assumes "tcp_wf c" "connection c = Some fd" "int (length request) \<le> maxMessageSize c" "maxMessageSize c < 2 ^ 32"
    and "\<not> nc_closed (conns w fd)" "nc_tx (conns w fd) = []" "now w < TCPClient_deadline c ctx (now w)"
    and "nc_in (conns w fd) = pre @ rest" "map snd pre = map RxByte (frame m)"
    and "prompt (TCPClient_deadline c ctx (now w)) pre" "int (length m) \<le> maxMessageSize c"
  shows "\<exists>p. Send ctx request (c, w) = (Ok m, (c\<lparr>bufferPool := p\<rparr>,
    w\<lparr>now := arrival (now w) pre, conns := (conns w)(fd := (conns w fd)\<lparr>
      nc_deadline := Some (TCPClient_deadline c ctx (now w)),
      nc_out := nc_out (conns w fd) @ frame request, nc_in := rest\<rparr>)\<rparr>))"
proof -
  let ?d = "TCPClient_deadline c ctx (now w)"
  let ?w1 = "w\<lparr>conns := (conns w)(fd := (conns w fd)\<lparr>nc_deadline := Some ?d\<rparr>)\<rparr>"
  let ?w2 = "w\<lparr>conns := (conns w)(fd := (conns w fd)\<lparr>nc_deadline := Some ?d, nc_out := nc_out (conns w fd) @ frame request\<rparr>)\<rparr>"
  have "length request < 2 ^ 32" using assms(3,4) by simp
  then have "start_request ctx request (c, w) = (Ok (), (c, ?w2))"
    using assms(2,5-7)
    by (simp add: start_request_def bindR_def mapErr_def setDeadline_eq on_conn_def writeFrame_at_once expired_def)
  moreover obtain b p where g: "bytesPool_Get (bufferPool c) = (b, p)" by force
  moreover have "int (length b) = maxMessageSize c"
    using assms(1) g readBuffers.get_fresh [of "bufferPool c"] by (auto simp: tcp_wf_def)
  moreover from this have "readFrameInto fd (maxMessageSize c) (b, ?w2) = (Ok m, (m @ drop (length m) b,
      ?w2\<lparr>now := arrival (now ?w2) pre, conns := (conns ?w2)(fd := (conns ?w2 fd)\<lparr>nc_in := rest\<rparr>)\<rparr>))"
    using assms by (intro readFrameInto_prompt [where d = ?d]) auto
  ultimately show ?thesis
    using assms(2,3)
    by (intro exI [of _ "bytesPool_Put (m @ drop (length m) b) p"])
      (simp add: Send_start bindR_def withBuffer_def mapErr_def readResponseFrame_def)
qed

text \<open>A client in the state \<^verbatim>\<open>NewTCPClient\<close> leaves it in, on connection 0.\<close>

definition example_client :: "int \<Rightarrow> TCPClient" where
  "example_client n = \<lparr>connection = Some 0, address = ''localhost:1945'', maxMessageSize = n,
     idleTimeout = 60, bufferPool = \<lparr>bp_pool = [], bp_size = nat n, bp_clearSlice = make_bytes (nat n)\<rparr>,
     token = '''', tlsConfig = None\<rparr>"

lemma example_client_wf [simp]: "0 \<le> n \<Longrightarrow> tcp_wf (example_client n)"
  by (simp add: tcp_wf_def example_client_def bytesPool_clean_def)

lemma example_client_simps [simp]:
  "connection (example_client n) = Some 0"
  "maxMessageSize (example_client n) = n"
  "TCPClient_deadline (example_client n) ctx_Background t = t + 60"
  by (simp_all add: example_client_def TCPClient_deadline_def ctx_Background_def)

lemma example_world_simps [simp]:
  "conns (example_world c) = (\<lambda>_. c)"
  "now (example_world c) = 0"
  "nconns (example_world c) = 1"
  "nc_in (example_conn ins tx) = ins"
  "nc_tx (example_conn ins tx) = tx"
  "nc_out (example_conn ins tx) = []"
  "\<not> nc_closed (example_conn ins tx)"
  by (simp_all add: example_world_def example_conn_def)

lemma arriving_simps [simp]:
  "map snd (arriving t bs) = map RxByte bs"
  "prompt d (arriving t bs) \<longleftrightarrow> t < d \<or> bs = []"
  by (auto simp: arriving_def prompt_def list_all_iff)

theorem Send_exchanges_one_frame_witness:
  "\<exists>c' w'. Send ctx_Background ''GET k'' (example_client 64,
      example_world (example_conn (arriving 7 (frame ''ok|5'')) [])) = (Ok ''ok|5'', (c', w')) \<and>
    nc_out (conns w' 0) = frame ''GET k''"
proof -
  let ?w = "example_world (example_conn (arriving 7 (frame ''ok|5'')) [])"
  obtain c' w' where s: "Send ctx_Background ''GET k'' (example_client 64, ?w) = (Ok ''ok|5'', (c', w'))"
    using Send_answered [where c = "example_client 64" and fd = 0 and request = "''GET k''" and
      w = ?w and ctx = ctx_Background and pre = "arriving 7 (frame ''ok|5'')" and rest = "[]" and m = "''ok|5''"]
    by auto
  with Send_exchanges_one_frame [OF _ s, of 0] show ?thesis by auto
qed

subsection \<open>Responses in chunks\<close>

text \<open>The frames of a response sent in chunks: continued chunks, then the last one with its status.\<close>

definition chunk_frames :: "bytes list \<Rightarrow> string \<Rightarrow> bytes \<Rightarrow> bytes list" where
  "chunk_frames ds st d = map (joinStatusAndData frameStatusNext) ds @ [joinStatusAndData st d]"

text \<open>What a client makes of them.\<close>

definition reassembled :: "bytes list \<Rightarrow> string \<Rightarrow> bytes \<Rightarrow> bytes" where
  "reassembled ds st d =
     joinStatusAndData st (if st = frameStatusOK then concat ds @ d else d)"

text \<open>\<open>arrives d ins fs rest\<close>: the frames \<open>fs\<close> arrive, each before \<open>d\<close>, and then \<open>rest\<close>.\<close>

inductive arrives :: "int \<Rightarrow> rx_script \<Rightarrow> bytes list \<Rightarrow> rx_script \<Rightarrow> bool" for d where
  none: "arrives d rest [] rest"
| frame: "map snd pre = map RxByte (frame f) \<Longrightarrow> prompt d pre \<Longrightarrow> arrives d ins fs rest \<Longrightarrow>
    arrives d (pre @ ins) (f # fs) rest"

inductive_cases arrives_ConsE: "arrives d ins (f # fs) rest"

lemma readResponseFrame_prompt:
  assumes "buffered_wf b c" "connection c = Some fd" "maxMessageSize c < 2 ^ 32"
    and "nc_in (conns w fd) = pre @ rest" "map snd pre = map RxByte (frame m)"
    and "nc_deadline (conns w fd) = Some d" "now w < d" "prompt d pre" "\<not> nc_closed (conns w fd)"
    and "int (length m) \<le> maxMessageSize c"
  shows "readResponseFrame (b, c, w) = (Ok m, (m @ drop (length m) b, c,
    w\<lparr>now := arrival (now w) pre, conns := (conns w)(fd := (conns w fd)\<lparr>nc_in := rest\<rparr>)\<rparr>))"
proof -
  have "int (length b) = maxMessageSize c" using assms(1) by (simp add: buffered_wf_def)
  with assms readFrameInto_prompt [of w fd pre rest m d b "maxMessageSize c"] show ?thesis
    by (simp add: readResponseFrame_def)
qed

lemma deadline_mono: "t \<le> t' \<Longrightarrow> TCPClient_deadline c ctx t \<le> TCPClient_deadline c ctx t'"
  by (auto simp: TCPClient_deadline_def Let_def split: option.splits)

lemma prompt_mono: "prompt d ins \<Longrightarrow> d \<le> d' \<Longrightarrow> prompt d' ins"
  by (auto simp: prompt_def list_all_iff)

text \<open>One round of a reading loop on a connection on which the next frame arrives in time.\<close>

lemma loop_round:
  assumes "buffered_wf b c" "connection c = Some fd" "maxMessageSize c < 2 ^ 32" "\<not> nc_closed (conns w fd)"
    and "d \<le> TCPClient_deadline c ctx (now w)" "now w < d"
    and "nc_in (conns w fd) = pre @ rest" "map snd pre = map RxByte (frame m)" "prompt d pre"
    and "int (length m) \<le> maxMessageSize c"
  shows "\<exists>w1 b2 w2. mapErr g (lift_tcp (setDeadline ctx)) (b, c, w) = (Ok (), (b, c, w1)) \<and>
    mapErr g' readResponseFrame (b, c, w1) = (Ok m, (b2, c, w2)) \<and> buffered_wf b2 c \<and>
    nc_in (conns w2 fd) = rest \<and> now w \<le> now w2 \<and> now w2 < d \<and> \<not> nc_closed (conns w2 fd)"
proof -
  let ?d = "TCPClient_deadline c ctx (now w)"
  let ?w1 = "w\<lparr>conns := (conns w)(fd := (conns w fd)\<lparr>nc_deadline := Some ?d\<rparr>)\<rparr>"
  have "mapErr g (lift_tcp (setDeadline ctx)) (b, c, w) = (Ok (), (b, c, ?w1))"
    using assms(2,4) by (simp add: lift_tcp_def setDeadline_eq mapErr_def)
  moreover have "mapErr g' readResponseFrame (b, c, ?w1) = (Ok m, (m @ drop (length m) b, c,
      ?w1\<lparr>now := arrival (now ?w1) pre, conns := (conns ?w1)(fd := (conns ?w1 fd)\<lparr>nc_in := rest\<rparr>)\<rparr>))"
    using readResponseFrame_prompt [of b c fd ?w1 pre rest m ?d] assms prompt_mono [OF assms(9,5)] by simp
  moreover have "buffered_wf (m @ drop (length m) b) c"
    using assms(1,10) by (auto simp: buffered_wf_def)
  ultimately show ?thesis
    using assms(4,6,9) arrival_bounds [of "now w" pre d] by auto
qed

lemma joinStatusAndData_split:
  assumes "respDelimiter \<notin> set st"
  shows "IndexByte (joinStatusAndData st d) respDelimiter = int (length st)"
    and "slice_to (joinStatusAndData st d) (int (length st)) = st"
    and "slice_from (joinStatusAndData st d) (int (length st) + 1) = d"
  using assms by (simp_all add: joinStatusAndData_def)

lemma joinStatusAndData_delimiter [simp]: "respDelimiter \<in> set (joinStatusAndData st d)"
  by (simp add: joinStatusAndData_def)

lemma chunkLoop_reassembles:
  assumes "st = frameStatusOK \<or> st = frameStatusError"
    and "connection c = Some fd" "maxMessageSize c < 2 ^ 32" "d \<le> TCPClient_deadline c ctx t"
    and "list_all (\<lambda>f. int (length f) \<le> maxMessageSize c) (chunk_frames ds st x)"
    and "buffered_wf b c" "\<not> nc_closed (conns w fd)" "t \<le> now w" "now w < d"
    and "arrives d (nc_in (conns w fd)) (chunk_frames ds st x) rest"
  shows "\<exists>b' w'. chunkLoop ctx body (b, c, w) = (Ok (reassembled (body # ds) st x), (b', c, w')) \<and>
    nc_in (conns w' fd) = rest"
  using assms(5-10)
proof (induction ds arbitrary: body b w)
  case Nil
  then obtain pre where pre: "nc_in (conns w fd) = pre @ rest"
    "map snd pre = map RxByte (frame (joinStatusAndData st x))" "prompt d pre"
    by (auto simp: chunk_frames_def elim!: arrives_ConsE elim: arrives.cases)
  have dl: "d \<le> TCPClient_deadline c ctx (now w)"
    using assms(4) deadline_mono [OF Nil(4), of c ctx] by linarith
  obtain w1 b2 w2 where round:
    "mapErr normalizeConnectionError (lift_tcp (setDeadline ctx)) (b, c, w) = (Ok (), (b, c, w1))"
    "mapErr normalizeConnectionError readResponseFrame (b, c, w1) = (Ok (joinStatusAndData st x), (b2, c, w2))"
    "nc_in (conns w2 fd) = rest"
    using loop_round [OF Nil(2) assms(2,3) Nil(3) dl Nil(5) pre] Nil(1) by (auto simp: chunk_frames_def)
  with assms(1) show ?case
    by (subst chunkLoop.simps)
      (auto simp: bindR_simps(1) joinStatusAndData_split reassembled_def Let_def)
next
  case (Cons y ds)
  let ?f = "joinStatusAndData frameStatusNext y"
  from Cons.prems(6) obtain pre ins where pre: "nc_in (conns w fd) = pre @ ins"
    "map snd pre = map RxByte (frame ?f)" "prompt d pre" "arrives d ins (chunk_frames ds st x) rest"
    by (auto simp: chunk_frames_def elim!: arrives_ConsE)
  have dl: "d \<le> TCPClient_deadline c ctx (now w)"
    using assms(4) deadline_mono [OF Cons.prems(4), of c ctx] by linarith
  obtain w1 b2 w2 where round:
    "mapErr normalizeConnectionError (lift_tcp (setDeadline ctx)) (b, c, w) = (Ok (), (b, c, w1))"
    "mapErr normalizeConnectionError readResponseFrame (b, c, w1) = (Ok ?f, (b2, c, w2))"
    "buffered_wf b2 c" "nc_in (conns w2 fd) = ins" "now w \<le> now w2" "now w2 < d" "\<not> nc_closed (conns w2 fd)"
    using loop_round [OF Cons.prems(2) assms(2,3) Cons.prems(3) dl Cons.prems(5) pre(1-3)] Cons.prems(1)
    by (auto simp: chunk_frames_def)
  have "chunkLoop ctx body (b, c, w) = chunkLoop ctx (body @ y) (b2, c, w2)"
    using round(1,2)
    by (subst chunkLoop.simps) (auto simp: bindR_simps(1) joinStatusAndData_split Let_def)
  moreover have "\<exists>b' w'. chunkLoop ctx (body @ y) (b2, c, w2) =
      (Ok (reassembled ((body @ y) # ds) st x), (b', c, w')) \<and> nc_in (conns w' fd) = rest"
    using round pre(4) Cons.prems(1,4) by (intro Cons.IH) (auto simp: chunk_frames_def)
  moreover have "reassembled ((body @ y) # ds) st x = reassembled (body # y # ds) st x"
    by (simp add: reassembled_def)
  ultimately show ?case by simp
qed

lemma start_request_at_once:
  assumes "connection c = Some fd" "length request < 2 ^ 32"
    and "\<not> nc_closed (conns w fd)" "nc_tx (conns w fd) = []" "now w < TCPClient_deadline c ctx (now w)"
  shows "start_request ctx request (c, w) = (Ok (), (c, w\<lparr>conns := (conns w)(fd := (conns w fd)
    \<lparr>nc_deadline := Some (TCPClient_deadline c ctx (now w)),
      nc_out := nc_out (conns w fd) @ frame request\<rparr>)\<rparr>))"
  using assms
  by (simp add: start_request_def bindR_def mapErr_def setDeadline_eq on_conn_def writeFrame_at_once expired_def)

text \<open>
  A response that does not begin to arrive before the deadline: the request fails at the deadline, with an
  error that counts as a closed connection, but the connection stays open and the response stays ahead.
\<close>

definition silent_until :: "int \<Rightarrow> rx_script \<Rightarrow> bool" where
  "silent_until d ins \<longleftrightarrow> (case ins of [] \<Rightarrow> True | (a, e) # _ \<Rightarrow> d \<le> a)"

lemma recv_silent:
  "silent_until d ins \<Longrightarrow> t < d \<Longrightarrow> recv (Some d) t ins (Suc n) = ([], RxError errIOTimeout, d, ins)"
  by (cases ins) (auto simp: silent_until_def expired_def)

lemma Send_times_out:
  assumes "connection c = Some fd" "int (length request) \<le> maxMessageSize c" "maxMessageSize c < 2 ^ 32"
    and "\<not> nc_closed (conns w fd)" "nc_tx (conns w fd) = []" "now w < TCPClient_deadline c ctx (now w)"
    and "silent_until (TCPClient_deadline c ctx (now w)) (nc_in (conns w fd))"
  shows "\<exists>p. Send ctx request (c, w) = (Err (Errorf ''%w: %w'' [W (Sentinel ErrConnClosed), W errIOTimeout]),
    (c\<lparr>bufferPool := p\<rparr>, w\<lparr>now := TCPClient_deadline c ctx (now w), conns := (conns w)(fd := (conns w fd)
      \<lparr>nc_deadline := Some (TCPClient_deadline c ctx (now w)),
        nc_out := nc_out (conns w fd) @ frame request\<rparr>)\<rparr>))"
proof -
  let ?d = "TCPClient_deadline c ctx (now w)"
  let ?w1 = "w\<lparr>conns := (conns w)(fd := (conns w fd)\<lparr>nc_deadline := Some ?d,
    nc_out := nc_out (conns w fd) @ frame request\<rparr>)\<rparr>"
  have "length request < 2 ^ 32" using assms(2,3) by simp
  with assms have start: "start_request ctx request (c, w) = (Ok (), (c, ?w1))"
    by (intro start_request_at_once)
  obtain b p where g: "bytesPool_Get (bufferPool c) = (b, p)" by force
  have "ReadFull fd frameHeaderSize ?w1 = (Ok ([], Some errIOTimeout), ?w1\<lparr>now := ?d\<rparr>)"
    using recv_silent [OF assms(7,6), of 3] assms(4)
    by (simp add: ReadFull_def frameHeaderSize_def Let_def errIOTimeout_def)
  then have "readResponseFrame (b, c\<lparr>bufferPool := p\<rparr>, ?w1) = (Err errIOTimeout, (b, c\<lparr>bufferPool := p\<rparr>, ?w1\<lparr>now := ?d\<rparr>))"
    using assms(1) by (simp add: readResponseFrame_def readFrameInto_def readFrameSize_def bindR_def)
  moreover have "normalizeConnectionError errIOTimeout = Errorf ''%w: %w'' [W (Sentinel ErrConnClosed), W errIOTimeout]"
    by (simp add: normalizeConnectionError_def isConnectionError_def errIOTimeout_def)
  ultimately show ?thesis
    using assms(2) start g
    by (intro exI [of _ "bytesPool_Put b p"])
      (simp add: Send_start bindR_simps(1) withBuffer_def mapErr_def)
qed

lemma SendChunked_chunks:
  assumes "tcp_wf c" "connection c = Some fd" "int (length request) \<le> maxMessageSize c" "maxMessageSize c < 2 ^ 32"
    and "\<not> nc_closed (conns w fd)" "nc_tx (conns w fd) = []" "now w < TCPClient_deadline c ctx (now w)"
    and "st = frameStatusOK \<or> st = frameStatusError"
    and "list_all (\<lambda>f. int (length f) \<le> maxMessageSize c) (chunk_frames ds st x)"
    and "arrives (TCPClient_deadline c ctx (now w)) (nc_in (conns w fd)) (chunk_frames ds st x) rest"
  shows "\<exists>s'. SendChunked ctx request (c, w) = (Ok (reassembled ds st x), s') \<and> inbox s' = rest"
proof -
  let ?d = "TCPClient_deadline c ctx (now w)"
  let ?w1 = "w\<lparr>conns := (conns w)(fd := (conns w fd)\<lparr>nc_deadline := Some ?d,
    nc_out := nc_out (conns w fd) @ frame request\<rparr>)\<rparr>"
  have "length request < 2 ^ 32" using assms(3,4) by simp
  with assms have start: "start_request ctx request (c, w) = (Ok (), (c, ?w1))"
    by (intro start_request_at_once)
  obtain b p where g: "bytesPool_Get (bufferPool c) = (b, p)" by force
  have wf: "buffered_wf b (c\<lparr>bufferPool := p\<rparr>)"
    using assms(1) g readBuffers.get_fresh [of "bufferPool c"] readBuffers.get_clean [of "bufferPool c"]
      bytesPool_size_simps(1) [of "bufferPool c"] by (auto simp: buffered_wf_def tcp_wf_def)
  have "\<exists>b' w'. chunkLoop ctx [] (b, c\<lparr>bufferPool := p\<rparr>, ?w1) =
      (Ok (reassembled ([] # ds) st x), (b', c\<lparr>bufferPool := p\<rparr>, w')) \<and> nc_in (conns w' fd) = rest"
    using assms wf by (intro chunkLoop_reassembles [where d = ?d and t = "now w"]) auto
  then show ?thesis
    using assms(2,3) start g
    by (auto simp: Send_start bindR_simps(1) withBuffer_def inbox_def reassembled_def)
qed

text \<open>C8: \<^verbatim>\<open>SendChunked\<close> puts a response that arrives in any number of chunks together again: the
  data of the \<^verbatim>\<open>nxt\<close> frames and of the \<^verbatim>\<open>ok\<close> frame in order; an \<^verbatim>\<open>err\<close> frame replaces what came
  before it. Nothing after the last frame is consumed.\<close>

theorem SendChunked_reassembles:
  assumes "tcp_wf c" "connection c = Some fd" "int (length request) \<le> maxMessageSize c" "maxMessageSize c < 2 ^ 32"
    and "\<not> nc_closed (conns w fd)" "nc_tx (conns w fd) = []" "now w < TCPClient_deadline c ctx (now w)"
    and "st = frameStatusOK \<or> st = frameStatusError"
    and "list_all (\<lambda>f. int (length f) \<le> maxMessageSize c) (chunk_frames ds st x)"
    and "arrives (TCPClient_deadline c ctx (now w)) (nc_in (conns w fd)) (chunk_frames ds st x) rest"
  shows "\<exists>s'. SendChunked ctx request (c, w) = (Ok (reassembled ds st x), s') \<and> inbox s' = rest"
  using assms by (rule SendChunked_chunks)

theorem SendChunked_reassembles_witness:
  "\<exists>s'. SendChunked ctx_Background ''INSPECT'' (example_client 64,
     example_world (example_conn (arriving 7 (frame ''nxt|{a'') @ arriving 9 (frame ''nxt|:'') @
       arriving 10 (frame ''ok|1}'') @ arriving 11 ''x'') [])) = (Ok ''ok|{a:1}'', s') \<and> inbox s' = arriving 11 ''x''"
proof -
  have frames: "chunk_frames [''{a'', '':''] ''ok'' ''1}'' = [''nxt|{a'', ''nxt|:'', ''ok|1}'']"
    by (simp add: chunk_frames_def joinStatusAndData_def frameStatusNext_def frameStatusOK_def respDelimiter_def)
  have "arrives 60 (arriving 7 (frame ''nxt|{a'') @ arriving 9 (frame ''nxt|:'') @
       arriving 10 (frame ''ok|1}'') @ arriving 11 ''x'') [''nxt|{a'', ''nxt|:'', ''ok|1}''] (arriving 11 ''x'')"
    by (intro arrives.intros) simp_all
  then show ?thesis
    using SendChunked_reassembles [where c = "example_client 64" and fd = 0 and ctx = ctx_Background and
      request = "''INSPECT''" and st = frameStatusOK and ds = "[''{a'', '':'']" and x = "''1}''" and
      rest = "arriving 11 ''x''" and w = "example_world (example_conn (arriving 7 (frame ''nxt|{a'') @
        arriving 9 (frame ''nxt|:'') @ arriving 10 (frame ''ok|1}'') @ arriving 11 ''x'') [])"]
    by (simp add: frames reassembled_def joinStatusAndData_def frameStatusOK_def respDelimiter_def)
qed

subsection \<open>Contracts of the requests\<close>

text \<open>C9: On every network, a request on a well-formed client returns, with a value or an error: it
  never panics and never hangs. It is over by its deadline, the earlier of the idle timeout and the
  context's deadline, sends nothing but a prefix of its own frame, touches no other connection, and
  leaves the client well-formed with all its settings.\<close>

theorem Send_contract:
  assumes "tcp_wf c" and "connection c = Some fd" and "Send ctx request (c, w) = (r, (c', w'))"
  shows "returns r \<and> tcp_wf c' \<and> same_settings c c' \<and> connection c' = Some fd \<and>
    now w \<le> now w' \<and> now w' \<le> max (now w) (min (now w + idleTimeout c)
      (case ctx_deadline ctx of None \<Rightarrow> now w + idleTimeout c | Some d \<Rightarrow> d)) \<and>
    (\<exists>k. nc_out (conns w' fd) = nc_out (conns w fd) @ take k (frame request)) \<and>
    (\<forall>fd'. fd' \<noteq> fd \<longrightarrow> conns w' fd' = conns w fd')"
proof -
  have "TCPClient_deadline c ctx (now w) = min (now w + idleTimeout c)
      (case ctx_deadline ctx of None \<Rightarrow> now w + idleTimeout c | Some d \<Rightarrow> d)"
    by (auto simp: TCPClient_deadline_def Let_def split: option.splits)
  with Send_result [OF assms] assms(2) show ?thesis
    by (auto simp: conn_effect_def)
qed

lemma example_settings [simp]:
  "idleTimeout (example_client n) = 60" "ctx_deadline ctx_Background = None"
  by (simp_all add: example_client_def ctx_Background_def)

theorem Send_contract_witness:
  "\<exists>e c' w'. Send ctx_Background ''GET k'' (example_client 64, example_world (example_conn [] [])) = (Err e, (c', w')) \<and>
     errors_Is e ErrConnClosed \<and> now w' \<le> 60"
proof -
  obtain e c' w' where s: "Send ctx_Background ''GET k'' (example_client 64, example_world (example_conn [] [])) =
      (Err e, (c', w'))" "errors_Is e ErrConnClosed"
    using Send_times_out [of "example_client 64" 0 "''GET k''" "example_world (example_conn [] [])" ctx_Background]
    by (auto simp: silent_until_def)
  with Send_contract [OF _ _ s(1), of 0] show ?thesis
    by simp
qed

lemma ctx_deadline_bounds: "bounded_by (ctx_deadline ctx) (TCPClient_deadline c ctx t)"
  by (cases "ctx_deadline ctx") (simp_all add: deadline_le)

subsection \<open>Handshakes\<close>

lemma or_corrupted_Inr [simp]: "or_corrupted x = Inr v \<longleftrightarrow> x = Some v"
  by (cases x) auto

text \<open>C13: A connected client has completed the handshake: the server answered \<^verbatim>\<open>HELLO\<close> with protocol
  version 1 and a maximum message size between 1 and 2^31 - 1, which the client now uses for its
  limit and its read buffers. It dialed the configured address with the configured TLS settings, and
  when anything failed the connection it opened is closed again.\<close>

theorem connect_completes_the_handshake:
  assumes "buffers_wf c" and "connect (c, w) = (r, (c', w'))"
  shows "dialed w' = dialed w @ [(address c, tlsConfig c)] \<and> same_settings c c' \<and> buffers_wf c' \<and>
    (r = Ok () \<and> connection c' = Some (nconns w) \<and> \<not> nc_closed (conns w' (nconns w)) \<and>
       0 < maxMessageSize c' \<and> maxMessageSize c' < 2 ^ 31 \<or>
     (\<exists>e. r = Err e) \<and> (nconns w' = nconns w \<or> nc_closed (conns w' (nconns w))))"
  using connect_result [OF assms] by auto

text \<open>C14: The handshake succeeds exactly when the server's answer is a well-formed \<^verbatim>\<open>ok\<close> response for
  protocol version 1; an \<^verbatim>\<open>err\<close> response with the code of a failed authentication, also behind any
  message, is reported as \<^verbatim>\<open>ErrAuthFailed\<close>, and every other protocol error as itself.\<close>

theorem hello_outcomes:
  assumes "Send ctx (helloRequest (token c)) (c, w) = (Ok resp, (c1, w1))"
  shows "(fst (hello ctx (c, w)) = Ok () \<longleftrightarrow>
      (\<exists>data info. resp = frameStatusOK @ respDelimiter # data \<and> helloFields data = Some info \<and> hi_version info = 1)) \<and>
    (resp = err_response CodeAuthenticationFailed m \<longrightarrow>
      (\<exists>e. fst (hello ctx (c, w)) = Err e \<and> errors_Is e ErrAuthFailed \<and> isProtocolCode (Some e) CodeAuthenticationFailed)) \<and>
    (resp = err_response code m \<and> code \<noteq> CodeAuthenticationFailed \<and> unat code \<le> 9999 \<longrightarrow>
      fst (hello ctx (c, w)) = Err (ProtocolError code m))"
proof -
  have err: "parseHelloResponse (err_response code m) = Inr (failure zero_helloInfo (ProtocolError code m))"
    if "unat code \<le> 9999" for code m
    using that by (simp add: err_response_def hello.status_err parseError_encoded)
  have "fst (hello ctx (c, w)) = Ok () \<longleftrightarrow> (\<exists>info. parseHelloResponse resp = Inr (success info) \<and> hi_version info = 1)"
  proof (cases "parseHelloResponse resp")
    case (Inl e)
    with assms show ?thesis by (auto simp: hello_def io_simps)
  next
    case (Inr p)
    from hello.parsed_status [OF this] show ?thesis
    proof (elim disjE exE)
      fix info assume p: "p = success info"
      show ?thesis
      proof (cases "hi_version info = 1")
        case True
        from Inr p obtain data where "helloFields data = Some info"
          by (auto simp: hello.success_iff or_corrupted_def split: option.splits)
        from helloFields_bounds [OF this] Inr p True assms show ?thesis
          by (auto simp: hello_def io_simps ProtocolVersion_def SetMaxMessageSizeUnsafe_def newBytesPool_def)
      qed (use Inr p assms in \<open>auto simp: hello_def io_simps ProtocolVersion_def\<close>)
    qed (use Inr assms in \<open>auto simp: hello_def io_simps\<close>)
  qed
  also have "\<dots> \<longleftrightarrow> (\<exists>data info. resp = frameStatusOK @ respDelimiter # data \<and> helloFields data = Some info \<and> hi_version info = 1)"
    by (auto simp: hello.success_iff)
  finally have ok: "fst (hello ctx (c, w)) = Ok () \<longleftrightarrow>
    (\<exists>data info. resp = frameStatusOK @ respDelimiter # data \<and> helloFields data = Some info \<and> hi_version info = 1)" .
  have auth: "\<exists>e. fst (hello ctx (c, w)) = Err e \<and> errors_Is e ErrAuthFailed \<and>
      isProtocolCode (Some e) CodeAuthenticationFailed" if "resp = err_response CodeAuthenticationFailed m"
    using assms err [of CodeAuthenticationFailed m] that
    by (auto simp: hello_def io_simps isProtocolCode_def CodeAuthenticationFailed_def errors_As_ProtocolError_def)
  have other: "fst (hello ctx (c, w)) = Err (ProtocolError code m)"
    if "resp = err_response code m \<and> code \<noteq> CodeAuthenticationFailed \<and> unat code \<le> 9999"
    using assms err [of code m] that by (auto simp: hello_def io_simps isProtocolCode_def)
  show ?thesis using ok auth other by blast
qed

theorem connect_completes_the_handshake_witness:
  "\<exists>e c' w'. connect (example_client 64, example_world (example_conn [] [])) = (Err e, (c', w')) \<and>
     dialed w' = [(''localhost:1945'', None)] \<and> nconns w' = 1"
proof -
  let ?s = "(example_client 64, example_world (example_conn [] []))"
  obtain r c' w' where s: "connect ?s = (r, (c', w'))" by (metis prod_cases3)
  then have "\<exists>e. r = Err e" "nconns w' = 1"
    by (auto simp: connect_def dial_def example_client_def wrapErr_def mapErr_def net_Dial_def example_world_def Let_def)
  moreover have "buffers_wf (example_client 64)" by (simp add: buffers_wf_def example_client_def bytesPool_clean_def)
  moreover have "dialed (example_world (example_conn [] [])) = []" "address (example_client 64) = ''localhost:1945''"
    "tlsConfig (example_client 64) = None" by (simp_all add: example_world_def example_client_def)
  ultimately show ?thesis
    using connect_completes_the_handshake [OF _ s] s by auto
qed

theorem hello_outcomes_witness:
  "\<exists>e. fst (hello ctx_Background (example_client 64, example_world (example_conn
     (arriving 3 (frame (err_response CodeAuthenticationFailed ''bad token''))) []))) = Err e \<and> errors_Is e ErrAuthFailed"
proof -
  let ?resp = "err_response CodeAuthenticationFailed ''bad token''"
  let ?w = "example_world (example_conn (arriving 3 (frame ?resp)) [])"
  have len: "length ?resp \<le> 64" "length (helloRequest []) \<le> 64"
    by code_simp+
  have tok: "token (example_client 64) = []" by (simp add: example_client_def)
  obtain c' w' where "Send ctx_Background (helloRequest (token (example_client 64))) (example_client 64, ?w) = (Ok ?resp, (c', w'))"
    using Send_answered [where c = "example_client 64" and fd = 0 and request = "helloRequest []" and
      w = ?w and ctx = ctx_Background and pre = "arriving 3 (frame ?resp)" and rest = "[]" and m = ?resp] len tok
    by auto
  from hello_outcomes [OF this] show ?thesis by blast
qed

end
