(* ===== verification/Conn_Pool.thy ===== *)
theory Conn_Pool
  imports Tcp_Client
begin

text \<open>
  The connection pool (\<^verbatim>\<open>conn_pool.go\<close>) as its callers use it one call at a time: a buffered channel
  of connections, a wait group that counts the connections in use, and the closed flag. A call that
  would wait for another goroutine is \<open>Blocked\<close>; the interleaving of calls of several goroutines is the
  subject of \<open>Pool_Concurrency\<close>. Connections are pointers and may be nil.
\<close>

record ConnectionPool =
  cp_connections :: "TCPClient option list"
  cp_size :: nat
  cp_chan_closed :: bool
  cp_wg :: int
  cp_closed :: bool
  cp_newConn :: "(world, TCPClient) io"

type_synonym pool_state = "ConnectionPool \<times> world"

definition NewConnectionPool :: "int \<Rightarrow> (world, TCPClient) io \<Rightarrow> ConnectionPool res" where
  "NewConnectionPool sz newConn =
     (if sz < 0 then Panic ''makechan: size out of range''
      else Ok \<lparr>cp_connections = [], cp_size = nat sz, cp_chan_closed = False, cp_wg = 0,
               cp_closed = False, cp_newConn = newConn\<rparr>)"

text \<open>\<^verbatim>\<open>wg.Add\<close> and \<^verbatim>\<open>wg.Done\<close>: a negative counter panics.\<close>

definition wg_Add :: "int \<Rightarrow> (pool_state, unit) io" where
  "wg_Add d = (\<lambda>(cp, w).
     let cp' = cp\<lparr>cp_wg := cp_wg cp + d\<rparr>
     in if cp_wg cp' < 0 then (Panic ''sync: negative WaitGroup counter'', (cp', w)) else (Ok (), (cp', w)))"

definition wg_Done :: "(pool_state, unit) io" where
  "wg_Done = wg_Add (-1)"

text \<open>
  \<^verbatim>\<open>GetConnection\<close>: a receive from a closed and drained channel yields nil at once, one from an empty
  open channel would wait, so the \<^verbatim>\<open>default\<close> branch dials.
\<close>

definition GetConnection :: "(pool_state, TCPClient option) io" where
  "GetConnection = (\<lambda>(cp, w).
     if cp_closed cp then (Err (Sentinel ErrConnPoolClosed), (cp, w))
     else case cp_connections cp of
            conn # rest \<Rightarrow>
              bindR (wg_Add 1) (\<lambda>_. ret conn) (cp\<lparr>cp_connections := rest\<rparr>, w)
          | [] \<Rightarrow>
              if cp_chan_closed cp then bindR (wg_Add 1) (\<lambda>_. ret None) (cp, w)
              else
                bindR (wg_Add 1) (\<lambda>_ (cp1, w1).
                  case cp_newConn cp1 w1 of
                    (Ok conn, w2) \<Rightarrow> (Ok (Some conn), (cp1, w2))
                  | (Err err, w2) \<Rightarrow>
                      bindR wg_Done (\<lambda>_. throw (Errorf ''new connection: %w'' [W err])) (cp1, w2)
                  | (Panic p, w2) \<Rightarrow> (Panic p, (cp1, w2))
                  | (Blocked, w2) \<Rightarrow> (Blocked, (cp1, w2))) (cp, w))"

definition ReleaseConnection :: "TCPClient option \<Rightarrow> (pool_state, unit) io" where
  "ReleaseConnection conn = (\<lambda>(cp, w).
     if cp_closed cp then (Ok (), (cp, w))
     else if cp_chan_closed cp then (Panic ''send on closed channel'', (cp, w))
     else if cp_size cp \<le> length (cp_connections cp) then (Blocked, (cp, w))
     else wg_Done (cp\<lparr>cp_connections := cp_connections cp @ [conn]\<rparr>, w))"

text \<open>The drain loop of \<^verbatim>\<open>Close\<close>; errors of closing are ignored.\<close>

fun closeAll :: "TCPClient option list \<Rightarrow> (world, unit) io" where
  "closeAll [] w = (Ok (), w)"
| "closeAll (None # cs) w = (Panic ''nil pointer dereference'', w)"
| "closeAll (Some c # cs) w =
     (case TCPClient_Close (c, w) of
        (Panic p, (c', w')) \<Rightarrow> (Panic p, w')
      | (Blocked, (c', w')) \<Rightarrow> (Blocked, w')
      | (_, (c', w')) \<Rightarrow> closeAll cs w')"

definition ConnectionPool_Close :: "(pool_state, unit) io" where
  "ConnectionPool_Close = (\<lambda>(cp, w).
     if 0 < cp_wg cp then (Blocked, (cp, w))
     else let cp1 = cp\<lparr>cp_closed := True\<rparr>
          in if cp_chan_closed cp1 then (Panic ''close of closed channel'', (cp1, w))
             else case closeAll (cp_connections cp1) w of
                    (r, w') \<Rightarrow> (r, (cp1\<lparr>cp_chan_closed := True, cp_connections := []\<rparr>, w')))"

subsection \<open>Invariant\<close>

text \<open>A connection a goroutine may use: well-formed, and opened at some point.\<close>

definition usable :: "TCPClient \<Rightarrow> world \<Rightarrow> bool" where
  "usable c w \<longleftrightarrow> tcp_wf c \<and> the (connection c) < nconns w"

definition conn_fd :: "TCPClient option \<Rightarrow> nat" where
  "conn_fd conn = the (connection (the conn))"

text \<open>
  The pooled connections are usable and pairwise different, no more than fit into the channel, and the
  channel is closed when the pool is.
\<close>

definition pool_inv :: "ConnectionPool \<Rightarrow> world \<Rightarrow> bool" where
  "pool_inv cp w \<longleftrightarrow>
     list_all (\<lambda>conn. conn \<noteq> None \<and> usable (the conn) w) (cp_connections cp) \<and>
     distinct (map conn_fd (cp_connections cp)) \<and>
     length (cp_connections cp) \<le> cp_size cp \<and> 0 \<le> cp_wg cp \<and> cp_chan_closed cp = cp_closed cp"

text \<open>What the pool relies on in the function it was given to open connections.\<close>

locale connection_source =
  fixes newConn :: "(world, TCPClient) io"
  assumes new_returns: "returns (fst (newConn w))"
    and new_grows: "nconns w \<le> nconns (snd (newConn w))"
    and new_usable: "fst (newConn w) = Ok c \<Longrightarrow>
      tcp_wf c \<and> connection c = Some (nconns w) \<and> nconns (snd (newConn w)) = Suc (nconns w)"

interpretation newTCPClient: connection_source "NewTCPClient addr 4096 idle opts" for addr idle opts
proof
  fix w c
  obtain r w' where r: "NewTCPClient addr 4096 idle opts w = (r, w')" by force
  note new = NewTCPClient_result [OF _ r, simplified]
  from new show "returns (fst (NewTCPClient addr 4096 idle opts w))" using r by simp
  from new show "nconns w \<le> nconns (snd (NewTCPClient addr 4096 idle opts w))" using r by simp
  assume "fst (NewTCPClient addr 4096 idle opts w) = Ok c"
  with new(5) [of c] r show "tcp_wf c \<and> connection c = Some (nconns w) \<and>
      nconns (snd (NewTCPClient addr 4096 idle opts w)) = Suc (nconns w)" by simp
qed

lemma usable_mono: "usable c w \<Longrightarrow> nconns w \<le> nconns w' \<Longrightarrow> usable c w'"
  by (simp add: usable_def)

lemma pool_inv_mono:
  assumes "pool_inv cp w" and "nconns w \<le> nconns w'"
  shows "pool_inv cp w'"
  using assms usable_mono by (fastforce simp: pool_inv_def list_all_iff)

context connection_source
begin

text \<open>
  \<^verbatim>\<open>GetConnection\<close> on a pool that opens its connections with this source: a closed pool is reported;
  otherwise the caller gets a usable connection that is no longer in the pool, or the error of opening one.
\<close>

lemma Get_result:
  assumes "pool_inv cp w" and "cp_newConn cp = newConn" and "GetConnection (cp, w) = (r, (cp', w'))"
  shows "pool_inv cp' w' \<and> cp_size cp' = cp_size cp \<and> cp_newConn cp' = newConn \<and> cp_closed cp' = cp_closed cp \<and>
    nconns w \<le> nconns w' \<and>
    ((\<exists>e. r = Err e \<and> cp_wg cp' = cp_wg cp \<and> cp_connections cp' = cp_connections cp) \<or>
     (\<exists>c. r = Ok (Some c) \<and> usable c w' \<and> conn_fd (Some c) \<notin> set (map conn_fd (cp_connections cp')) \<and>
        \<not> cp_closed cp \<and> cp_wg cp' = cp_wg cp + 1 \<and>
        (cp_connections cp = Some c # cp_connections cp' \<or> cp_connections cp = [] \<and> cp_connections cp' = [])))"
proof (cases "cp_closed cp")
  case True
  with assms show ?thesis by (auto simp: GetConnection_def)
next
  case False
  show ?thesis
  proof (cases "cp_connections cp")
    case (Cons conn rest)
    then obtain c where "conn = Some c" using assms(1) by (cases conn) (auto simp: pool_inv_def)
    with assms False Cons show ?thesis
      by (auto simp: GetConnection_def wg_Add_def bindR_def Let_def pool_inv_def)
  next
    case Nil
    with False assms(1) have "\<not> cp_chan_closed cp" "0 \<le> cp_wg cp" by (auto simp: pool_inv_def)
    obtain q w1 where n: "newConn w = (q, w1)" by force
    have "nconns w \<le> nconns w1" "returns q" using new_grows [of w] new_returns [of w] n by auto
    moreover have "usable c w1" if "q = Ok c" for c
      using new_usable [of w c] n that by (simp add: usable_def)
    ultimately show ?thesis
      using assms False Nil \<open>\<not> cp_chan_closed cp\<close> \<open>0 \<le> cp_wg cp\<close> n
      by (cases q) (auto simp: GetConnection_def wg_Add_def wg_Done_def bindR_def Let_def pool_inv_def)
  qed
qed

end

text \<open>A released connection goes back into the pool when there is room; on a full pool the caller waits.\<close>

lemma Release_result:
  assumes "pool_inv cp w" and "usable c w" and "conn_fd (Some c) \<notin> set (map conn_fd (cp_connections cp))"
    and "0 < cp_wg cp" and "\<not> cp_closed cp"
  shows "ReleaseConnection (Some c) (cp, w) =
    (if length (cp_connections cp) < cp_size cp
     then (Ok (), (cp\<lparr>cp_connections := cp_connections cp @ [Some c], cp_wg := cp_wg cp - 1\<rparr>, w))
     else (Blocked, (cp, w)))"
    and "length (cp_connections cp) < cp_size cp \<Longrightarrow>
      pool_inv (cp\<lparr>cp_connections := cp_connections cp @ [Some c], cp_wg := cp_wg cp - 1\<rparr>) w"
  using assms
  by (auto simp: ReleaseConnection_def wg_Done_def wg_Add_def Let_def pool_inv_def)

lemma closeAll_result:
  assumes "list_all (\<lambda>conn. conn \<noteq> None \<and> usable (the conn) w) cs"
  shows "\<exists>w'. closeAll cs w = (Ok (), w') \<and> nconns w' = nconns w \<and> now w' = now w \<and>
    (\<forall>fd. nc_closed (conns w' fd) \<longleftrightarrow> nc_closed (conns w fd) \<or> fd \<in> set (map conn_fd cs))"
  using assms
proof (induction cs arbitrary: w)
  case (Cons conn cs)
  then obtain c fd where c: "conn = Some c" "connection c = Some fd"
    by (auto simp: usable_def tcp_wf_def)
  let ?w = "snd (conn_Close fd w)"
  have w: "nconns ?w = nconns w" "now ?w = now w"
    "\<forall>x. nc_closed (conns ?w x) \<longleftrightarrow> nc_closed (conns w x) \<or> x = fd"
    by (auto simp: conn_Close_def)
  have "closeAll (conn # cs) w = closeAll cs ?w"
    using c by (auto simp: TCPClient_Close_def on_conn_def conn_Close_def)
  moreover have "list_all (\<lambda>conn. conn \<noteq> None \<and> usable (the conn) ?w) cs"
    using Cons.prems w(1) by (auto simp: usable_def)
  ultimately show ?case
    using Cons.IH [of ?w] w c by (auto simp: conn_fd_def)
qed simp

subsection \<open>Properties\<close>

text \<open>C21: \<^verbatim>\<open>GetConnection\<close> on a pool of dialed connections gives every caller a usable connection of
  its own: it is taken out of the pool, or freshly dialed when the pool is empty, and counted in the
  wait group; when dialing fails the pool and the count are as before; a closed pool gives nothing.\<close>

theorem GetConnection_contract:
  assumes "pool_inv cp w" and "cp_newConn cp = NewTCPClient addr 4096 idle opts"
    and "GetConnection (cp, w) = (r, (cp', w'))"
  shows "pool_inv cp' w' \<and>
    ((\<exists>e. r = Err e \<and> cp_wg cp' = cp_wg cp \<and> cp_connections cp' = cp_connections cp) \<or>
     (\<exists>c. r = Ok (Some c) \<and> usable c w' \<and> conn_fd (Some c) \<notin> set (map conn_fd (cp_connections cp')) \<and>
        \<not> cp_closed cp \<and> cp_wg cp' = cp_wg cp + 1))"
  using newTCPClient.Get_result [OF assms] by blast

definition example_pool :: "TCPClient option list \<Rightarrow> nat \<Rightarrow> ConnectionPool" where
  "example_pool cs n = \<lparr>cp_connections = cs, cp_size = n, cp_chan_closed = False, cp_wg = 0, cp_closed = False,
     cp_newConn = NewTCPClient ''localhost:1945'' 4096 60 []\<rparr>"

lemma example_pool_simps [simp]:
  "cp_connections (example_pool cs n) = cs"
  "cp_size (example_pool cs n) = n"
  "\<not> cp_chan_closed (example_pool cs n)"
  "cp_wg (example_pool cs n) = 0"
  "\<not> cp_closed (example_pool cs n)"
  "cp_newConn (example_pool cs n) = NewTCPClient ''localhost:1945'' 4096 60 []"
  by (simp_all add: example_pool_def)

lemma example_pool_inv:
  "pool_inv (example_pool [Some (example_client 64)] (Suc n)) (example_world c)"
  "pool_inv (example_pool [] n) (example_world c)"
  by (simp_all add: pool_inv_def usable_def)

theorem GetConnection_contract_witness:
  "\<exists>c cp' w'. GetConnection (example_pool [Some (example_client 64)] 2, example_world (example_conn [] [])) =
      (Ok (Some c), (cp', w')) \<and> cp_wg cp' = 1 \<and> pool_inv cp' w'"
proof -
  let ?cp = "example_pool [Some (example_client 64)] 2" and ?w = "example_world (example_conn [] [])"
  obtain cp' where g: "GetConnection (?cp, ?w) = (Ok (Some (example_client 64)), (cp', ?w))" and "cp_wg cp' = 1"
    by (simp add: GetConnection_def bindR_def wg_Add_def Let_def)
  with GetConnection_contract [OF _ _ g] example_pool_inv(1) [of 1] show ?thesis
    by (simp add: numeral_2_eq_2)
qed

text \<open>C34: Closing a pool with no connection in use closes every pooled connection, and only those;
  from then on \<^verbatim>\<open>GetConnection\<close> fails with \<^verbatim>\<open>ErrConnPoolClosed\<close>, and closing the pool a second time
  panics.\<close>

theorem Close_closes_the_pooled_connections:
  assumes "pool_inv cp w" and "cp_wg cp = 0" and "\<not> cp_closed cp"
  shows "\<exists>cp' w'. ConnectionPool_Close (cp, w) = (Ok (), (cp', w')) \<and> cp_connections cp' = [] \<and>
    (\<forall>fd. nc_closed (conns w' fd) \<longleftrightarrow> nc_closed (conns w fd) \<or> fd \<in> set (map conn_fd (cp_connections cp))) \<and>
    GetConnection (cp', w') = (Err (Sentinel ErrConnPoolClosed), (cp', w')) \<and>
    (\<exists>s. ConnectionPool_Close (cp', w') = (Panic ''close of closed channel'', s))"
proof -
  obtain w' where "closeAll (cp_connections cp) w = (Ok (), w')"
    "\<forall>fd. nc_closed (conns w' fd) \<longleftrightarrow> nc_closed (conns w fd) \<or> fd \<in> set (map conn_fd (cp_connections cp))"
    using closeAll_result [of w "cp_connections cp"] assms(1) by (auto simp: pool_inv_def)
  with assms show ?thesis
    by (auto simp: ConnectionPool_Close_def Let_def GetConnection_def pool_inv_def)
qed

theorem Close_closes_the_pooled_connections_witness:
  "\<exists>cp' w'. ConnectionPool_Close (example_pool [Some (example_client 64)] 2, example_world (example_conn [] [])) =
      (Ok (), (cp', w')) \<and> nc_closed (conns w' 0) \<and> \<not> nc_closed (conns w' 1)"
proof -
  have "conn_fd (Some (example_client 64)) = 0" by (simp add: conn_fd_def)
  then show ?thesis
    using Close_closes_the_pooled_connections [of "example_pool [Some (example_client 64)] 2" "example_world (example_conn [] [])"]
      example_pool_inv(1) [of 1] by (auto simp: numeral_2_eq_2)
qed

end
