(* ===== verification/Client.thy ===== *)
theory Client
  imports Conn_Pool
begin

text \<open>
  The client for one server (\<^verbatim>\<open>client.go\<close>): every operation writes its command into a recycled buffer,
  takes a connection from the pool, sends the command with reconnecting, interprets the response and
  returns connection and buffer. The state of an operation is the client, the package's pool of command
  buffers and the network.
\<close>

record Client =
  client_pool :: ConnectionPool

type_synonym client_state = "Client \<times> BytesBufferPool \<times> world"

definition maxReconnectAttempts :: nat where
  "maxReconnectAttempts = 16"

subsection \<open>Sending with reconnects\<close>

text \<open>
  The loop over the attempts, for the request \<open>send\<close>: \<open>left\<close> attempts remain, \<open>attempt\<close> is the number of
  the next one, \<open>lastErr\<close> the error to report when none is left.
\<close>

fun reconnectLoop ::
  "(tcp_state, bytes) io \<Rightarrow> ctx \<Rightarrow> nat \<Rightarrow> nat \<Rightarrow> go_error \<Rightarrow> (tcp_state, bytes) io"
where
  "reconnectLoop send ctx attempt 0 lastErr s =
     (Err (Errorf ''reconnect attempts exceeded: %w'' [W lastErr]), s)"
| "reconnectLoop send ctx attempt (Suc left) lastErr s =
     (case ctx_Err ctx (now (snd s)) of
        Some err \<Rightarrow> (Err err, s)
      | None \<Rightarrow>
          (case Reconnect s of
             (Err err, s1) \<Rightarrow>
               reconnectLoop send ctx (attempt + 1) left
                 (Errorf ''reconnect attempt %d: %w'' [D (int attempt), W err]) s1
           | (Panic p, s1) \<Rightarrow> (Panic p, s1)
           | (Blocked, s1) \<Rightarrow> (Blocked, s1)
           | (Ok _, s1) \<Rightarrow>
               (case send s1 of
                  (Ok resp, s2) \<Rightarrow> (Ok resp, s2)
                | (Panic p, s2) \<Rightarrow> (Panic p, s2)
                | (Blocked, s2) \<Rightarrow> (Blocked, s2)
                | (Err err, s2) \<Rightarrow>
                    if \<not> errors_Is err ErrConnClosed then (Err err, s2)
                    else reconnectLoop send ctx (attempt + 1) left err s2)))"

definition sendWithReconnect :: "ctx \<Rightarrow> bytes \<Rightarrow> (tcp_state, bytes) io" where
  "sendWithReconnect ctx data s =
     (case Send ctx data s of
        (Ok resp, s1) \<Rightarrow> (Ok resp, s1)
      | (Panic p, s1) \<Rightarrow> (Panic p, s1)
      | (Blocked, s1) \<Rightarrow> (Blocked, s1)
      | (Err err, s1) \<Rightarrow>
          if \<not> errors_Is err ErrConnClosed then (Err err, s1)
          else reconnectLoop (Send ctx data) ctx 1 maxReconnectAttempts err s1)"

text \<open>The same for responses in chunks (\<^verbatim>\<open>inspect.go\<close>).\<close>

definition sendChunkedWithReconnect :: "ctx \<Rightarrow> bytes \<Rightarrow> (tcp_state, bytes) io" where
  "sendChunkedWithReconnect ctx data s =
     (case SendChunked ctx data s of
        (Ok resp, s1) \<Rightarrow> (Ok resp, s1)
      | (Panic p, s1) \<Rightarrow> (Panic p, s1)
      | (Blocked, s1) \<Rightarrow> (Blocked, s1)
      | (Err err, s1) \<Rightarrow>
          if \<not> errors_Is err ErrConnClosed then (Err err, s1)
          else reconnectLoop (SendChunked ctx data) ctx 1 maxReconnectAttempts err s1)"

subsection \<open>Connections and command buffers of an operation\<close>

text \<open>
  \<^verbatim>\<open>conn, err := c.pool.GetConnection(); defer c.pool.ReleaseConnection(conn)\<close> around the rest of an
  operation, which uses the connection and keeps a state \<open>'h\<close> of its own (that of a stream's handler).
  A method call on a nil connection panics; the connection is released on every way out.
\<close>

definition releaseAfter ::
  "TCPClient option \<Rightarrow> 'a res \<times> 'h \<Rightarrow> Client \<times> ConnectionPool \<times> BytesBufferPool \<times> world \<Rightarrow>
     ('a res \<times> 'h) \<times> client_state"
where
  "releaseAfter conn out = (\<lambda>(cl, cp, bufs, w).
     case ReleaseConnection conn (cp, w) of
       (Panic p, (cp', w')) \<Rightarrow> ((Panic p, snd out), (cl\<lparr>client_pool := cp'\<rparr>, bufs, w'))
     | (Blocked, (cp', w')) \<Rightarrow> ((Blocked, snd out), (cl\<lparr>client_pool := cp'\<rparr>, bufs, w'))
     | (_, (cp', w')) \<Rightarrow> (out, (cl\<lparr>client_pool := cp'\<rparr>, bufs, w')))"

definition withConnectionH ::
  "(tcp_state \<Rightarrow> ('a res \<times> 'h) \<times> tcp_state) \<Rightarrow> 'h \<Rightarrow> client_state \<Rightarrow> ('a res \<times> 'h) \<times> client_state"
where
  "withConnectionH m h = (\<lambda>(cl, bufs, w).
     case GetConnection (client_pool cl, w) of
       (Err err, (cp, w1)) \<Rightarrow>
         ((Err (Errorf ''get connection: %w'' [W err]), h), (cl\<lparr>client_pool := cp\<rparr>, bufs, w1))
     | (Panic p, (cp, w1)) \<Rightarrow> ((Panic p, h), (cl\<lparr>client_pool := cp\<rparr>, bufs, w1))
     | (Blocked, (cp, w1)) \<Rightarrow> ((Blocked, h), (cl\<lparr>client_pool := cp\<rparr>, bufs, w1))
     | (Ok None, (cp, w1)) \<Rightarrow>
         releaseAfter None (Panic ''nil pointer dereference'', h) (cl, cp, bufs, w1)
     | (Ok (Some conn), (cp, w1)) \<Rightarrow>
         (case m (conn, w1) of
            ((Blocked, h'), (conn', w2)) \<Rightarrow> ((Blocked, h'), (cl\<lparr>client_pool := cp\<rparr>, bufs, w2))
          | (out, (conn', w2)) \<Rightarrow> releaseAfter (Some conn') out (cl, cp, bufs, w2)))"

definition withConnection :: "(tcp_state, 'a) io \<Rightarrow> (client_state, 'a) io" where
  "withConnection m s =
     (case withConnectionH (\<lambda>t. case m t of (r, t') \<Rightarrow> ((r, ()), t')) () s of ((r, _), s') \<Rightarrow> (r, s'))"

text \<open>
  \<^verbatim>\<open>buf := bytesBufferPool.Get(); defer bytesBufferPool.Put(buf)\<close> around an operation that writes its
  command into the buffer.
\<close>

definition withCommandH ::
  "(bytes \<Rightarrow> bytes) \<Rightarrow> (bytes \<Rightarrow> client_state \<Rightarrow> ('a res \<times> 'h) \<times> client_state) \<Rightarrow>
     client_state \<Rightarrow> ('a res \<times> 'h) \<times> client_state"
where
  "withCommandH write m = (\<lambda>(cl, bufs, w).
     case BytesBufferPool_Get bufs of
       (buf, bufs1) \<Rightarrow>
         (case m (write buf) (cl, bufs1, w) of
            ((Blocked, h), s) \<Rightarrow> ((Blocked, h), s)
          | (out, (cl', bufs2, w')) \<Rightarrow> (out, (cl', BytesBufferPool_Put (write buf) bufs2, w'))))"

definition withCommand :: "(bytes \<Rightarrow> bytes) \<Rightarrow> (bytes \<Rightarrow> (client_state, 'a) io) \<Rightarrow> (client_state, 'a) io" where
  "withCommand write m s =
     (case withCommandH write (\<lambda>cmd t. case m cmd t of (r, t') \<Rightarrow> ((r, ()), t')) s of ((r, _), s') \<Rightarrow> (r, s'))"

text \<open>
  The end of every operation: parse the response and select by its status; \<open>zero\<close> is what the operation
  returns beside an error.
\<close>

definition finish ::
  "(bytes \<Rightarrow> go_error + 'v parsed) \<Rightarrow> ('v \<Rightarrow> 'r) \<Rightarrow> 'r \<Rightarrow> bytes \<Rightarrow> (tcp_state, 'r) io"
where
  "finish parse f zero resp =
     (case parse resp of
        Inl err \<Rightarrow> throw (Errorf ''parse response: %w'' [W err])
      | Inr result \<Rightarrow>
          (case p_status result of
             ResponseStatusSuccess \<Rightarrow> ret (f (p_payload result))
           | ResponseStatusError \<Rightarrow>
               (case p_err result of None \<Rightarrow> ret zero | Some err \<Rightarrow> throw err)
           | ResponseStatusUnknown \<Rightarrow> throw (Sentinel ErrUnknownRespStatus)))"

text \<open>Connection, request, response: the common body of the operations.\<close>

definition exchange ::
  "(bytes \<Rightarrow> go_error + 'v parsed) \<Rightarrow> ('v \<Rightarrow> 'r) \<Rightarrow> 'r \<Rightarrow> ctx \<Rightarrow> bytes \<Rightarrow> (client_state, 'r) io"
where
  "exchange parse f zero ctx command =
     withConnection (bindR (wrapErr ''send: %w'' (sendWithReconnect ctx command)) (finish parse f zero))"

subsection \<open>Counters\<close>

definition Client_Incr :: "ctx \<Rightarrow> CappingKey \<Rightarrow> (client_state, uint64) io" where
  "Client_Incr ctx key =
     withCommand (\<lambda>buf. writeCommand buf CommandIncr key) (exchange parseResponse id 0 ctx)"

definition Client_Get :: "ctx \<Rightarrow> CappingKey \<Rightarrow> (client_state, uint64) io" where
  "Client_Get ctx key =
     withCommand (\<lambda>buf. writeCommand buf CommandGet key) (exchange parseResponse id 0 ctx)"

definition Client_Watch :: "ctx \<Rightarrow> CappingKey \<Rightarrow> (client_state, uint64) io" where
  "Client_Watch ctx key =
     withCommand (\<lambda>buf. writeCommand buf CommandWatch key) (exchange parseResponse id 0 ctx)"

definition Client_Del :: "ctx \<Rightarrow> CappingKey \<Rightarrow> (client_state, bool) io" where
  "Client_Del ctx key =
     withCommand (\<lambda>buf. writeCommand buf CommandDel key)
       (exchange parseResponse (\<lambda>v. v = 1) False ctx)"

definition Client_MDel :: "ctx \<Rightarrow> CappingKey list \<Rightarrow> (client_state, bool list) io" where
  "Client_MDel ctx ks =
     withCommand (\<lambda>buf. writeMultiCommand buf CommandMDel ks)
       (exchange parseMultiResponse valuesToBools [] ctx)"

subsection \<open>Rate limits\<close>

definition rlimit :: "ctx \<Rightarrow> bytes \<Rightarrow> (client_state, RateLimitResult) io" where
  "rlimit = exchange parseRateLimitResponse id zero_RateLimitResult"

definition Client_RLimitFixedWindow :: "ctx \<Rightarrow> LimitKey \<Rightarrow> uint32 \<Rightarrow> (client_state, RateLimitResult) io" where
  "Client_RLimitFixedWindow ctx key limit =
     withCommand (\<lambda>buf. writeRLimitWindowCommand buf RLimitAlgorithmFW key limit) (rlimit ctx)"

definition Client_RLimitSlidingWindow :: "ctx \<Rightarrow> LimitKey \<Rightarrow> uint32 \<Rightarrow> (client_state, RateLimitResult) io" where
  "Client_RLimitSlidingWindow ctx key limit =
     withCommand (\<lambda>buf. writeRLimitWindowCommand buf RLimitAlgorithmSW key limit) (rlimit ctx)"

definition Client_RLimitTokenBucket ::
  "ctx \<Rightarrow> LimitKey \<Rightarrow> uint32 \<Rightarrow> uint32 \<Rightarrow> (client_state, RateLimitResult) io"
where
  "Client_RLimitTokenBucket ctx key capacity refillAmount =
     withCommand (\<lambda>buf. writeRLimitTokenBucketCommand buf key capacity refillAmount) (rlimit ctx)"

subsection \<open>Quotas\<close>

definition quotaAcquire :: "ctx \<Rightarrow> bytes \<Rightarrow> (client_state, QuotaAcquireResult) io" where
  "quotaAcquire = exchange parseQuotaAcquireResponse id zero_QuotaAcquireResult"

definition Client_QuotaAcquire ::
  "ctx \<Rightarrow> string \<Rightarrow> uint32 \<Rightarrow> string \<Rightarrow> uint32 list \<Rightarrow> (client_state, QuotaAcquireResult) io"
where
  "Client_QuotaAcquire ctx name amount clientID ttl =
     withCommand (\<lambda>buf. writeQuotaAcquireCommand buf name amount clientID ttl) (quotaAcquire ctx)"

definition Client_QuotaAcquireLease ::
  "ctx \<Rightarrow> string \<Rightarrow> uint32 \<Rightarrow> uint32 \<Rightarrow> string \<Rightarrow> uint32 list \<Rightarrow> (client_state, QuotaAcquireResult) io"
where
  "Client_QuotaAcquireLease ctx name limit amount clientID ttl =
     withCommand (\<lambda>buf. writeQuotaAcquireLeaseCommand buf name limit amount clientID ttl) (quotaAcquire ctx)"

definition Client_QuotaAcquireN ::
  "ctx \<Rightarrow> string \<Rightarrow> string \<Rightarrow> uint32 list \<Rightarrow> (client_state, QuotaAcquireResult) io"
where
  "Client_QuotaAcquireN ctx name clientID ttl =
     withCommand (\<lambda>buf. writeQuotaAcquireNCommand buf name clientID ttl) (quotaAcquire ctx)"

definition boolCommand :: "ctx \<Rightarrow> bytes \<Rightarrow> (client_state, bool) io" where
  "boolCommand = exchange parseResponse (\<lambda>v. v = 1) False"

definition quotaBool :: "ctx \<Rightarrow> bytes \<Rightarrow> (client_state, bool) io" where
  "quotaBool ctx command = boolCommand ctx command"

definition Client_QuotaSet :: "ctx \<Rightarrow> string \<Rightarrow> uint32 \<Rightarrow> (client_state, bool) io" where
  "Client_QuotaSet ctx name limit =
     withCommand (\<lambda>buf. writeQuotaSetCommand buf name limit) (quotaBool ctx)"

definition Client_QuotaSetN :: "ctx \<Rightarrow> string \<Rightarrow> uint32 \<Rightarrow> uint32 \<Rightarrow> (client_state, bool) io" where
  "Client_QuotaSetN ctx name limit clients =
     withCommand (\<lambda>buf. writeQuotaSetNCommand buf name limit clients) (quotaBool ctx)"

definition Client_QuotaRelease :: "ctx \<Rightarrow> string \<Rightarrow> string \<Rightarrow> (client_state, bool) io" where
  "Client_QuotaRelease ctx name clientID =
     withCommand (\<lambda>buf. writeQuotaReleaseCommand buf name clientID) (quotaBool ctx)"

definition Client_QuotaDelete :: "ctx \<Rightarrow> string \<Rightarrow> (client_state, bool) io" where
  "Client_QuotaDelete ctx name =
     withCommand (\<lambda>buf. writeQuotaDeleteCommand buf name) (quotaBool ctx)"

definition Client_QuotaInfo :: "ctx \<Rightarrow> string \<Rightarrow> (client_state, QuotaInfo) io" where
  "Client_QuotaInfo ctx name =
     withCommand (\<lambda>buf. writeQuotaInfoCommand buf name) (exchange parseQuotaInfoResponse id zero_QuotaInfo ctx)"

subsection \<open>Scans and administration\<close>

definition scan :: "ctx \<Rightarrow> bytes \<Rightarrow> (client_state, ScanResult) io" where
  "scan = exchange parseScanResponse id zero_ScanResult"

definition Client_Scan :: "ctx \<Rightarrow> string \<Rightarrow> uint32 \<Rightarrow> (client_state, ScanResult) io" where
  "Client_Scan ctx cursor count = withCommand (\<lambda>buf. writeScanCommand buf cursor count) (scan ctx)"

definition Client_PScan :: "ctx \<Rightarrow> string \<Rightarrow> string \<Rightarrow> uint32 \<Rightarrow> (client_state, ScanResult) io" where
  "Client_PScan ctx prefix cursor count =
     withCommand (\<lambda>buf. writePScanCommand buf prefix cursor count) (scan ctx)"

definition Client_FlushDB :: "ctx \<Rightarrow> (client_state, bool) io" where
  "Client_FlushDB ctx = boolCommand ctx CommandFlushDB"

definition Client_Truncate :: "ctx \<Rightarrow> (client_state, bool) io" where
  "Client_Truncate ctx = boolCommand ctx CommandTruncate"

subsection \<open>Subscriptions\<close>

text \<open>
  Requests do not dial, and a reconnect that succeeds has used up a dial; so a subscription that keeps
  reconnecting ends with the network's script.
\<close>

definition pending_dials :: "tcp_state \<Rightarrow> nat" where
  "pending_dials s = length (dials (snd s))"

lemma setDeadline_dials: "setDeadline ctx s = (r, s') \<Longrightarrow> dials (snd s') = dials (snd s)"
  by (cases s) (auto simp: setDeadline_eq split: option.splits if_splits)

lemma on_conn_writeFrame_dials:
  assumes "on_conn (\<lambda>fd. writeFrame fd request) s = (r, s')"
  shows "dials (snd s') = dials (snd s)"
proof -
  obtain c w where s: "s = (c, w)" by (cases s)
  show ?thesis
  proof (cases "connection c")
    case (Some fd)
    with assms s obtain w' where "writeFrame fd request w = (r, w')" "s' = (c, w')"
      by (auto simp: on_conn_def split: prod.splits)
    with writeFrame_result [OF this(1)] s show ?thesis by (auto simp: write_effect_frame)
  qed (use assms s in \<open>auto simp: on_conn_def\<close>)
qed

lemma start_request_dials: "start_request ctx request s = (r, s') \<Longrightarrow> dials (snd s') = dials (snd s)"
  by (auto simp: start_request_def bindR_def mapErr_def split: prod.splits res.splits
    dest!: setDeadline_dials on_conn_writeFrame_dials)

lemma readResponseFrame_dials:
  assumes "readResponseFrame (b, s) = (r, (b', s'))"
  shows "dials (snd s') = dials (snd s)"
proof -
  obtain c w where s: "s = (c, w)" by (cases s)
  show ?thesis
  proof (cases "connection c")
    case (Some fd)
    with assms s obtain w' where "readFrameInto fd (maxMessageSize c) (b, w) = (r, (b', w'))" "s' = (c, w')"
      by (auto simp: readResponseFrame_def split: prod.splits)
    with readFrameInto_result(1) [OF this(1)] s show ?thesis by (auto simp: read_effect_frame)
  qed (use assms s in \<open>auto simp: readResponseFrame_def\<close>)
qed

lemma loop_step_dials:
  assumes "mapErr g (lift_tcp (setDeadline ctx)) s = (q, s1)" and "mapErr g' readResponseFrame s1 = (r, s2)"
  shows "dials (snd (snd s1)) = dials (snd (snd s))" and "dials (snd (snd s2)) = dials (snd (snd s))"
proof -
  obtain b t where s: "s = (b, t)" by (cases s)
  obtain q' t1 where t1: "s1 = (b, t1)" "setDeadline ctx t = (q', t1)"
    using assms(1) s by (auto simp: lift_tcp_def mapErr_def split: prod.splits res.splits)
  obtain b2 t2 where s2: "s2 = (b2, t2)" by (cases s2)
  obtain r' where "readResponseFrame s1 = (r', s2)" using assms(2) by (rule mapErr_eq)
  with t1 s s2 setDeadline_dials [OF t1(2)] readResponseFrame_dials [of b t1 r' b2 t2]
  show "dials (snd (snd s1)) = dials (snd (snd s))" "dials (snd (snd s2)) = dials (snd (snd s))" by auto
qed

lemma streamLoop_dials:
  "streamLoop ctx handle h s = (out, s') \<Longrightarrow> dials (snd (snd s')) = dials (snd (snd s))"
proof (induction ctx handle h s arbitrary: out s' rule: streamLoop.induct)
  case (1 ctx handle h s)
  let ?n = "normalizeConnectionError"
  obtain q s1 where q: "mapErr ?n (lift_tcp (setDeadline ctx)) s = (q, s1)" by (metis surj_pair)
  obtain r2 s2 where r2: "mapErr ?n readResponseFrame s1 = (r2, s2)" by (metis surj_pair)
  note loop = "1.prems" [unfolded streamLoop.simps [of ctx handle h s]]
  note step = loop_step_dials [OF q r2]
  show ?case
  proof (cases "\<exists>m h1. q = Ok () \<and> r2 = Ok m \<and> handle m h = (None, h1)")
    case False
    then show ?thesis
      using loop q r2 step by (cases q; cases r2) (auto split: prod.splits option.splits)
  next
    case True
    then obtain m h1 where m: "q = Ok ()" "r2 = Ok m" "handle m h = (None, h1)" by blast
    have "streamLoop ctx handle h1 s2 = (out, s')" using loop q r2 m by simp
    then have "dials (snd (snd s')) = dials (snd (snd s2))"
      by (rule "1.IH" [rotated -1]) (use q r2 m in \<open>auto simp del: mapErr_Ok_iff\<close>)
    with step show ?thesis by simp
  qed
qed

lemma TCPClient_Stream_dials:
  assumes "TCPClient_Stream ctx request handle h s = (out, s')"
  shows "dials (snd s') = dials (snd s)"
proof -
  obtain c w where s: "s = (c, w)" by (cases s)
  show ?thesis
  proof (cases "maxMessageSize c < int (length request)")
    case True
    with assms s show ?thesis by (auto simp: oversized_request)
  next
    case False
    obtain q c1 w1 where q: "start_request ctx request s = (q, (c1, w1))" by (metis prod_cases3)
    obtain b p where g: "bytesPool_Get (bufferPool c1) = (b, p)" by force
    obtain r h' b' c2 w2 where l: "streamLoop ctx handle h (b, c1\<lparr>bufferPool := p\<rparr>, w1) = ((r, h'), (b', c2, w2))"
      by (metis prod_cases3 surj_pair)
    have "snd s' = w1 \<or> snd s' = w2"
      using assms s False q g l
      by (cases q; cases r) (auto simp: TCPClient_Stream_def start_request_def [symmetric])
    with start_request_dials [OF q] streamLoop_dials [OF l] show ?thesis by auto
  qed
qed

lemma Send_dials:
  assumes "Send ctx request s = (r, s')"
  shows "dials (snd s') = dials (snd s)"
proof -
  obtain c w where s: "s = (c, w)" by (cases s)
  show ?thesis
  proof (cases "maxMessageSize c < int (length request)")
    case True
    with assms s show ?thesis by (auto simp: oversized_request)
  next
    case False
    obtain q c1 w1 where q: "start_request ctx request s = (q, (c1, w1))" by (metis prod_cases3)
    obtain b p where g: "bytesPool_Get (bufferPool c1) = (b, p)" by force
    obtain r' b' c2 w2 where l: "readResponseFrame (b, c1\<lparr>bufferPool := p\<rparr>, w1) = (r', (b', c2, w2))"
      by (metis prod_cases3 surj_pair)
    have "snd s' = w1 \<or> snd s' = w2"
      using assms s False q g l
      by (cases q; cases r') (auto simp: Send_start bindR_def withBuffer_def mapErr_def)
    with start_request_dials [OF q] readResponseFrame_dials [OF l] show ?thesis by auto
  qed
qed

lemma hello_dials:
  assumes "hello ctx s = (r, s')"
  shows "dials (snd s') = dials (snd s)"
proof -
  obtain c w where s: "s = (c, w)" by (cases s)
  obtain q c1 w1 where q: "Send ctx (helloRequest (token c)) s = (q, (c1, w1))" by (metis prod_cases3)
  have "snd s' = w1"
  proof (cases q)
    case (Ok resp)
    with assms s q show ?thesis
      by (auto simp: hello_def io_simps SetMaxMessageSizeUnsafe_def
        split: sum.splits option.splits if_splits res.splits)
  qed (use assms s q in \<open>auto simp: hello_def io_simps\<close>)
  with Send_dials [OF q] show ?thesis by simp
qed

lemma Reconnect_dials:
  assumes "Reconnect s = (r, s')"
  shows "pending_dials s' \<le> pending_dials s"
    and "r = Ok u \<Longrightarrow> pending_dials s' < pending_dials s"
proof -
  obtain c w where s: "s = (c, w)" by (cases s)
  obtain q c1 w1 where q: "TCPClient_Close s = (q, (c1, w1))" by (metis prod_cases3)
  have w1: "dials w1 = dials w"
    using q s by (auto simp: TCPClient_Close_def on_conn_def conn_Close_def split: option.splits if_splits)
  have "pending_dials s' \<le> pending_dials s \<and> (r = Ok u \<longrightarrow> pending_dials s' < pending_dials s)"
  proof (cases "q = Blocked \<or> (\<exists>p. q = Panic p)")
    case True
    with assms q s w1 show ?thesis by (auto simp: Reconnect_def pending_dials_def)
  next
    case False
    then have conn: "connect (c1, w1) = (r, s')" using assms q by (cases q) (auto simp: Reconnect_def)
    obtain d w2 where d: "dial (address c1) (tlsConfig c1) w1 = (d, w2)" by force
    have dd: "length (dials w2) \<le> length (dials w1) \<and> (d = Ok fd \<longrightarrow> length (dials w2) < length (dials w1))" for fd
      using d by (auto simp: dial_def wrapErr_def mapErr_def net_Dial_def Let_def
        split: option.splits list.splits sum.splits prod.splits)
    show ?thesis
    proof (cases d)
      case (Ok fd)
      obtain h c3 w3 where h: "hello (ctx_WithTimeout (now w2) connectTimeout) (c1\<lparr>connection := Some fd\<rparr>, w2) = (h, (c3, w3))"
        by (metis prod_cases3)
      have "dials (snd s') = dials w3"
        using conn d Ok h by (cases h) (auto simp: connect_def conn_Close_def)
      with hello_dials [OF h] dd [of fd] Ok w1 s show ?thesis by (auto simp: pending_dials_def)
    qed (use conn d dd w1 s in \<open>auto simp: connect_def pending_dials_def\<close>)
  qed
  then show "pending_dials s' \<le> pending_dials s" "r = Ok u \<Longrightarrow> pending_dials s' < pending_dials s" by auto
qed

text \<open>The reconnect loop of a stream; it starts with no error and reports the last one.\<close>

fun streamReconnect :: "ctx \<Rightarrow> nat \<Rightarrow> go_error option \<Rightarrow> (tcp_state, unit) io" where
  "streamReconnect ctx 0 reconnectErr s =
     (case reconnectErr of
        None \<Rightarrow> (Ok (), s)
      | Some err \<Rightarrow> (Err (Errorf ''stream reconnect attempts exceeded: %w'' [W err]), s))"
| "streamReconnect ctx (Suc left) reconnectErr s =
     (case ctx_Err ctx (now (snd s)) of
        Some ctxErr \<Rightarrow> (Err ctxErr, s)
      | None \<Rightarrow>
          (case Reconnect s of
             (Err err, s1) \<Rightarrow> streamReconnect ctx left (Some err) s1
           | (r, s1) \<Rightarrow> (r, s1)))"

lemma streamReconnect_dials:
  "streamReconnect ctx n e s = (r, s') \<Longrightarrow>
     pending_dials s' \<le> pending_dials s \<and> (r = Ok u \<and> (e \<noteq> None \<or> n \<noteq> 0) \<longrightarrow> pending_dials s' < pending_dials s)"
proof (induction ctx n e s arbitrary: r s' rule: streamReconnect.induct)
  case (2 ctx left e s)
  show ?case
  proof (cases "ctx_Err ctx (now (snd s))")
    case None
    obtain q s1 where q: "Reconnect s = (q, s1)" by (metis surj_pair)
    note dials = Reconnect_dials [OF q]
    show ?thesis
    proof (cases q)
      case (Err err)
      with 2 None q have "pending_dials s' \<le> pending_dials s1 \<and> (r = Ok u \<longrightarrow> pending_dials s' < pending_dials s1)"
        by auto
      with dials show ?thesis by auto
    qed (use "2.prems" None q dials in auto)
  qed (use "2.prems" in auto)
qed (auto split: option.splits)

text \<open>
  The outer loop of \<^verbatim>\<open>stream\<close> and \<^verbatim>\<open>qstream\<close>; \<open>onMessage\<close> is the function that parses a message and calls
  the handler.
\<close>

function streamRetry ::
  "ctx \<Rightarrow> bytes \<Rightarrow> (bytes \<Rightarrow> 'h \<Rightarrow> go_error option \<times> 'h) \<Rightarrow> 'h \<Rightarrow> tcp_state \<Rightarrow> (unit res \<times> 'h) \<times> tcp_state"
where
  "streamRetry ctx command onMessage h s =
     (case TCPClient_Stream ctx command onMessage h s of
        ((Ok _, h'), s1) \<Rightarrow> ((Ok (), h'), s1)
      | ((Panic p, h'), s1) \<Rightarrow> ((Panic p, h'), s1)
      | ((Blocked, h'), s1) \<Rightarrow> ((Blocked, h'), s1)
      | ((Err err, h'), s1) \<Rightarrow>
          (case ctx_Err ctx (now (snd s1)) of
             Some ctxErr \<Rightarrow> ((Err ctxErr, h'), s1)
           | None \<Rightarrow>
               if \<not> errors_Is err ErrConnClosed then ((Err err, h'), s1)
               else (case streamReconnect ctx maxReconnectAttempts None s1 of
                       (Ok _, s2) \<Rightarrow> streamRetry ctx command onMessage h' s2
                     | (Err e, s2) \<Rightarrow> ((Err e, h'), s2)
                     | (Panic p, s2) \<Rightarrow> ((Panic p, h'), s2)
                     | (Blocked, s2) \<Rightarrow> ((Blocked, h'), s2))))"
  by pat_completeness auto

lemma stream_round_dials:
  assumes "TCPClient_Stream ctx command onMessage h s = (out, s1)"
    and "streamReconnect ctx maxReconnectAttempts None s1 = (Ok u, s2)"
  shows "pending_dials s2 < pending_dials s"
  using TCPClient_Stream_dials [OF assms(1)] streamReconnect_dials [OF assms(2), of u]
  by (simp add: maxReconnectAttempts_def pending_dials_def)

termination streamRetry
  by (relation "measure (\<lambda>(ctx, command, onMessage, h, s). pending_dials s)")
    (auto dest: stream_round_dials [OF sym sym] stream_round_dials)

declare streamRetry.simps [simp del]

definition eventHandler ::
  "(bytes \<Rightarrow> go_error + 'v parsed) \<Rightarrow> ('v \<Rightarrow> 'h \<Rightarrow> go_error option \<times> 'h) \<Rightarrow> bytes \<Rightarrow> 'h \<Rightarrow> go_error option \<times> 'h"
where
  "eventHandler parse handle response h =
     (case parse response of
        Inl err \<Rightarrow> (Some (Errorf ''parse response: %w'' [W err]), h)
      | Inr result \<Rightarrow>
          (case p_status result of
             ResponseStatusSuccess \<Rightarrow> handle (p_payload result) h
           | ResponseStatusError \<Rightarrow> (p_err result, h)
           | ResponseStatusUnknown \<Rightarrow> (Some (Sentinel ErrUnknownRespStatus), h)))"

definition stream ::
  "ctx \<Rightarrow> bytes \<Rightarrow> (LimitEvent \<Rightarrow> 'h \<Rightarrow> go_error option \<times> 'h) \<Rightarrow> 'h \<Rightarrow> client_state \<Rightarrow> (unit res \<times> 'h) \<times> client_state"
where
  "stream ctx command handle h =
     withConnectionH (streamRetry ctx command (eventHandler parseLimitEventResponse handle) h) h"

definition qstream ::
  "ctx \<Rightarrow> bytes \<Rightarrow> (QuotaEvent \<Rightarrow> 'h \<Rightarrow> go_error option \<times> 'h) \<Rightarrow> 'h \<Rightarrow> client_state \<Rightarrow> (unit res \<times> 'h) \<times> client_state"
where
  "qstream ctx command handle h =
     withConnectionH (streamRetry ctx command (eventHandler parseQuotaEventResponse handle) h) h"

definition Client_Stream ::
  "ctx \<Rightarrow> (LimitEvent \<Rightarrow> 'h \<Rightarrow> go_error option \<times> 'h) \<Rightarrow> 'h \<Rightarrow> client_state \<Rightarrow> (unit res \<times> 'h) \<times> client_state"
where
  "Client_Stream ctx handle h = stream ctx CommandStream handle h"

definition Client_PStream ::
  "ctx \<Rightarrow> string \<Rightarrow> (LimitEvent \<Rightarrow> 'h \<Rightarrow> go_error option \<times> 'h) \<Rightarrow> 'h \<Rightarrow> client_state \<Rightarrow> (unit res \<times> 'h) \<times> client_state"
where
  "Client_PStream ctx prefix handle h =
     withCommandH (\<lambda>buf. writePrefixCommand buf CommandPStream prefix) (\<lambda>command. stream ctx command handle h)"

definition Client_QStream ::
  "ctx \<Rightarrow> (QuotaEvent \<Rightarrow> 'h \<Rightarrow> go_error option \<times> 'h) \<Rightarrow> 'h \<Rightarrow> client_state \<Rightarrow> (unit res \<times> 'h) \<times> client_state"
where
  "Client_QStream ctx handle h = qstream ctx CommandQStream handle h"

definition Client_QPStream ::
  "ctx \<Rightarrow> string \<Rightarrow> (QuotaEvent \<Rightarrow> 'h \<Rightarrow> go_error option \<times> 'h) \<Rightarrow> 'h \<Rightarrow> client_state \<Rightarrow> (unit res \<times> 'h) \<times> client_state"
where
  "Client_QPStream ctx prefix handle h =
     withCommandH (\<lambda>buf. writePrefixCommand buf CommandQPStream prefix) (\<lambda>command. qstream ctx command handle h)"

subsection \<open>Opening and closing a client\<close>

fun getConnections :: "nat \<Rightarrow> TCPClient option list \<Rightarrow> (pool_state, TCPClient option list) io" where
  "getConnections 0 cs s = (Ok cs, s)"
| "getConnections (Suc n) cs s = bindR GetConnection (\<lambda>c. getConnections n (cs @ [c])) s"

fun releaseConnections :: "TCPClient option list \<Rightarrow> (pool_state, unit) io" where
  "releaseConnections [] s = (Ok (), s)"
| "releaseConnections (c # cs) s = bindR (ReleaseConnection c) (\<lambda>_. releaseConnections cs) s"

definition New :: "string \<Rightarrow> int \<Rightarrow> int \<Rightarrow> Option list \<Rightarrow> (world, Client) io" where
  "New addr idle poolSize opts w =
     (let newConnFn = NewTCPClient addr 4096 idle opts
      in case NewConnectionPool poolSize newConnFn of
           Ok pool \<Rightarrow>
             (case bindR (getConnections (nat poolSize) []) releaseConnections (pool, w) of
                (Ok _, (pool', w')) \<Rightarrow> (Ok \<lparr>client_pool = pool'\<rparr>, w')
              | (Err e, (pool', w')) \<Rightarrow> (Err e, w')
              | (Panic p, (pool', w')) \<Rightarrow> (Panic p, w')
              | (Blocked, (pool', w')) \<Rightarrow> (Blocked, w'))
         | Err e \<Rightarrow> (Err e, w)
         | Panic p \<Rightarrow> (Panic p, w)
         | Blocked \<Rightarrow> (Blocked, w))"

definition Client_Close :: "(client_state, unit) io" where
  "Client_Close = (\<lambda>(cl, bufs, w).
     case ConnectionPool_Close (client_pool cl, w) of
       (r, (cp, w')) \<Rightarrow> (r, (cl\<lparr>client_pool := cp\<rparr>, bufs, w')))"

subsection \<open>Invariant of a client\<close>

text \<open>
  Between calls of one goroutine an open client has room in its pool and no connection outstanding, the
  command buffers are empty, and new connections come from \<^verbatim>\<open>NewTCPClient\<close>.
\<close>

definition client_inv :: "client_state \<Rightarrow> bool" where
  "client_inv = (\<lambda>(cl, bufs, w).
     pool_inv (client_pool cl) w \<and> cp_wg (client_pool cl) = 0 \<and> 0 < cp_size (client_pool cl) \<and>
     (\<exists>addr idle opts. cp_newConn (client_pool cl) = NewTCPClient addr 4096 idle opts) \<and>
     BytesBufferPool_clean bufs)"

text \<open>The invariant with a bound on the connections opened so far, which only grow.\<close>

definition client_from :: "nat \<Rightarrow> client_state \<Rightarrow> bool" where
  "client_from n s \<longleftrightarrow> client_inv s \<and> n \<le> nconns (snd (snd s))"

lemma client_from_0: "client_from 0 = client_inv"
  by (auto simp: client_from_def)

text \<open>
  What an operation needs of the code that uses its connection: it returns, keeps the connection usable,
  stays clear of the other open connections, and does not take opened connections back.
\<close>

definition uses_connection :: "(tcp_state \<Rightarrow> ('a res \<times> 'h) \<times> tcp_state) \<Rightarrow> bool" where
  "uses_connection m \<longleftrightarrow>
     (\<forall>c w r h c' w'. usable c w \<longrightarrow> m (c, w) = ((r, h), (c', w')) \<longrightarrow>
        returns r \<and> usable c' w' \<and> nconns w \<le> nconns w' \<and>
        (connection c' = connection c \<or> nconns w \<le> the (connection c')))"

text \<open>
  An operation either reports that it got no connection, or its outcome is that of the code run on a
  usable connection; in both cases the client is ready for the next operation.
\<close>

lemma not_pooled:
  assumes "pool_inv cp w" and "conn_fd (Some c) \<notin> set (map conn_fd (cp_connections cp))"
    and "connection c' = connection c \<or> nconns w \<le> the (connection c')"
  shows "conn_fd (Some c') \<notin> set (map conn_fd (cp_connections cp))"
proof (cases "connection c' = connection c")
  case True
  with assms(2) show ?thesis by (simp add: conn_fd_def)
next
  case False
  have "conn_fd x < nconns w" if "x \<in> set (cp_connections cp)" for x
    using assms(1) that by (auto simp: pool_inv_def list_all_iff usable_def conn_fd_def)
  with False assms(3) show ?thesis by (fastforce simp: conn_fd_def)
qed

lemma withConnectionH_result:
  assumes "client_inv s" and "uses_connection m"
  shows "\<exists>s'. client_inv s' \<and> nconns (snd (snd s)) \<le> nconns (snd (snd s')) \<and>
    ((\<exists>e. withConnectionH m h s = ((Err (Errorf ''get connection: %w'' [W e]), h), s')) \<or>
     (\<exists>c w1 r h' c' w2. usable c w1 \<and> m (c, w1) = ((r, h'), (c', w2)) \<and> returns r \<and>
        withConnectionH m h s = ((r, h'), s') \<and> snd (snd s') = w2))"
proof -
  obtain cl bufs w where s: "s = (cl, bufs, w)" by (cases s)
  let ?cp = "client_pool cl"
  from assms(1) s obtain addr idle opts where inv: "pool_inv ?cp w" "cp_wg ?cp = 0" "0 < cp_size ?cp"
    "cp_newConn ?cp = NewTCPClient addr 4096 idle opts" "BytesBufferPool_clean bufs"
    by (auto simp: client_inv_def)
  obtain q cp1 w1 where g: "GetConnection (?cp, w) = (q, (cp1, w1))" by (metis prod_cases3)
  note get = newTCPClient.Get_result [OF inv(1,4) g]
  show ?thesis
  proof (cases "\<exists>e. q = Err e")
    case True
    let ?s' = "(cl\<lparr>client_pool := cp1\<rparr>, bufs, w1)"
    from True get inv g s have "client_inv ?s'" "nconns (snd (snd s)) \<le> nconns (snd (snd ?s'))"
      "\<exists>e. withConnectionH m h s = ((Err (Errorf ''get connection: %w'' [W e]), h), ?s')"
      by (auto simp: withConnectionH_def client_inv_def)
    then show ?thesis by blast
  next
    case False
    with get obtain c where c: "q = Ok (Some c)" "usable c w1" "conn_fd (Some c) \<notin> set (map conn_fd (cp_connections cp1))"
      "\<not> cp_closed ?cp" "cp_wg cp1 = 1" "pool_inv cp1 w1" "cp_size cp1 = cp_size ?cp" "cp_closed cp1 = cp_closed ?cp"
      and room: "cp_connections ?cp = Some c # cp_connections cp1 \<or> cp_connections cp1 = []"
      using inv(2) by auto
    obtain r h' c' w2 where m: "m (c, w1) = ((r, h'), (c', w2))" by (metis surj_pair)
    from assms(2) c(2) m have use: "returns r" "usable c' w2" "nconns w1 \<le> nconns w2"
      "connection c' = connection c \<or> nconns w1 \<le> the (connection c')"
      unfolding uses_connection_def by blast+
    have "conn_fd (Some c') \<notin> set (map conn_fd (cp_connections cp1))"
      by (rule not_pooled [OF c(6,3) use(4)])
    moreover have "pool_inv cp1 w2" using pool_inv_mono [OF c(6) use(3)] .
    moreover have "length (cp_connections cp1) < cp_size cp1"
      using room inv(1,3) c(7) by (auto simp: pool_inv_def)
    ultimately have rel: "ReleaseConnection (Some c') (cp1, w2) = (Ok (),
        (cp1\<lparr>cp_connections := cp_connections cp1 @ [Some c'], cp_wg := cp_wg cp1 - 1\<rparr>, w2))"
      "pool_inv (cp1\<lparr>cp_connections := cp_connections cp1 @ [Some c'], cp_wg := cp_wg cp1 - 1\<rparr>) w2"
      using Release_result [of cp1 w2 c'] use(2) c(4,5,8) by auto
    let ?s' = "(cl\<lparr>client_pool := cp1\<lparr>cp_connections := cp_connections cp1 @ [Some c'], cp_wg := cp_wg cp1 - 1\<rparr>\<rparr>, bufs, w2)"
    have "withConnectionH m h s = ((r, h'), ?s')"
      using g s c(1) m use(1) rel(1) by (cases r) (auto simp: withConnectionH_def releaseAfter_def)
    moreover have "client_inv ?s'"
      using rel(2) inv(3-5) c(5,7) get by (auto simp: client_inv_def)
    moreover have "nconns (snd (snd s)) \<le> nconns (snd (snd ?s'))" using get use(3) s by simp
    ultimately show ?thesis using m use(1) c(2) by (intro exI [of _ ?s']) auto
  qed
qed

subsection \<open>Requests with reconnects keep the connection usable\<close>

lemma Reconnect_fresh:
  assumes "tcp_wf c" and "connection c = Some fd" and "fd < nconns w" and "Reconnect (c, w) = (r, (c', w'))"
  shows "connection c' = connection c \<or> connection c' = Some (nconns w)"
proof -
  obtain q w1 where cl: "conn_Close fd w = (q, w1)" by force
  then have w1: "nconns w1 = nconns w" "returns q" by (auto simp: conn_Close_def split: if_splits)
  have "connect (c, w1) = (r, (c', w'))"
    using assms(2,4) cl w1 by (cases q) (auto simp: Reconnect_def TCPClient_Close_def on_conn_def)
  with connect_result(1) [OF _ this] assms(1) w1 show ?thesis by (auto simp: tcp_wf_iff)
qed

text \<open>
  The contract of a request that is repeated after a reconnect; \<^verbatim>\<open>Send\<close> and \<^verbatim>\<open>SendChunked\<close> provide it.
  The loop then sends at most once per attempt.
\<close>

locale request_sender =
  fixes request :: "ctx \<Rightarrow> bytes \<Rightarrow> (tcp_state, bytes) io"
  assumes request_contract:
    "usable c w \<Longrightarrow> request ctx data (c, w) = (r, (c', w')) \<Longrightarrow>
       returns r \<and> usable c' w' \<and> nconns w' = nconns w \<and> connection c' = connection c \<and> same_settings c c' \<and>
       dialed w' = dialed w"
begin

lemma reconnectLoop_contract:
  assumes "usable c w" and "reconnectLoop (request ctx data) ctx k n e (c, w) = (r, (c', w'))"
  shows "returns r \<and> usable c' w' \<and> nconns w \<le> nconns w' \<and> same_settings c c' \<and>
    (connection c' = connection c \<or> nconns w \<le> the (connection c'))"
  using assms
proof (induction n arbitrary: k e c w)
  case 0
  then show ?case by auto
next
  case (Suc n)
  show ?case
  proof (cases "ctx_Err ctx (now w)")
    case (Some err)
    with Suc.prems show ?thesis by auto
  next
    case None
    obtain fd where fd: "connection c = Some fd" "fd < nconns w" "tcp_wf c"
      using Suc.prems(1) by (auto simp: usable_def tcp_wf_def)
    obtain q c1 w1 where q: "Reconnect (c, w) = (q, (c1, w1))" by (metis prod_cases3)
    note rc = Reconnect_result [OF fd(3,1,2) q]
    have c1: "usable c1 w1" using rc by (auto simp: usable_def tcp_wf_def)
    have step: ?thesis if "reconnectLoop (request ctx data) ctx k' n e' (c2, w2) = (r, (c', w'))"
      "usable c2 w2" "nconns w1 \<le> nconns w2" "same_settings c1 c2" "connection c2 = connection c1" for k' e' c2 w2
    proof -
      from Suc.IH [OF that(2,1)] that(3-5) rc show ?thesis
        using Reconnect_fresh [OF fd(3,1,2) q] by (auto simp: same_settings_def)
    qed
    show ?thesis
    proof (cases q)
      case (Err err)
      with Suc.prems(2) None q show ?thesis by (intro step [of _ _ c1 w1]) (auto simp: c1)
    next
      case (Ok u)
      obtain r2 c2 w2 where r2: "request ctx data (c1, w1) = (r2, (c2, w2))" by (metis prod_cases3)
      note req = request_contract [OF c1 r2]
      show ?thesis
      proof (cases "\<exists>err. r2 = Err err \<and> errors_Is err ErrConnClosed")
        case True
        then obtain err where "r2 = Err err" "errors_Is err ErrConnClosed" by blast
        with Suc.prems(2) None q Ok r2 req show ?thesis by (intro step [of _ _ c2 w2]) auto
      next
        case False
        with Suc.prems(2) None q Ok r2 req have "r = r2" "c' = c2" "w' = w2" by (cases r2; auto)+
        with req rc Reconnect_fresh [OF fd(3,1,2) q] show ?thesis by (auto simp: same_settings_def)
      qed
    qed (use rc in auto)
  qed
qed

end

lemma usableE:
  assumes "usable c w"
  obtains fd where "tcp_wf c" "connection c = Some fd" "fd < nconns w"
  using assms by (auto simp: usable_def tcp_wf_def)

interpretation single_frame: request_sender Send
proof
  fix c w ctx data r c' w'
  assume "usable c w" and s: "Send ctx data (c, w) = (r, (c', w'))"
  then obtain fd where c: "tcp_wf c" "connection c = Some fd" "fd < nconns w" by (elim usableE)
  from Send_result [OF c(1,2) s] c show "returns r \<and> usable c' w' \<and> nconns w' = nconns w \<and>
      connection c' = connection c \<and> same_settings c c' \<and> dialed w' = dialed w"
    by (auto simp: usable_def conn_effect_def)
qed

interpretation chunked: request_sender SendChunked
proof
  fix c w ctx data r c' w'
  assume "usable c w" and s: "SendChunked ctx data (c, w) = (r, (c', w'))"
  then obtain fd where c: "tcp_wf c" "connection c = Some fd" "fd < nconns w" by (elim usableE)
  from SendChunked_result [OF c(1,2) ctx_deadline_bounds s] c show "returns r \<and> usable c' w' \<and>
      nconns w' = nconns w \<and> connection c' = connection c \<and> same_settings c c' \<and> dialed w' = dialed w"
    by (auto simp: usable_def conn_effect_def)
qed

lemma sendWithReconnect_contract:
  assumes "usable c w" and "sendWithReconnect ctx data (c, w) = (r, (c', w'))"
  shows "returns r \<and> usable c' w' \<and> nconns w \<le> nconns w' \<and> same_settings c c' \<and>
    (connection c' = connection c \<or> nconns w \<le> the (connection c'))"
proof -
  obtain q c1 w1 where q: "Send ctx data (c, w) = (q, (c1, w1))" by (metis prod_cases3)
  note send = single_frame.request_contract [OF assms(1) q]
  show ?thesis
  proof (cases "\<exists>err. q = Err err \<and> errors_Is err ErrConnClosed")
    case True
    then obtain err where "q = Err err" "errors_Is err ErrConnClosed" by blast
    with assms(2) q have "reconnectLoop (Send ctx data) ctx 1 maxReconnectAttempts err (c1, w1) = (r, (c', w'))"
      by (simp add: sendWithReconnect_def)
    from single_frame.reconnectLoop_contract [OF _ this] send show ?thesis by (auto simp: same_settings_def)
  next
    case False
    with assms(2) q send show ?thesis by (cases q) (auto simp: sendWithReconnect_def)
  qed
qed

lemma sendChunkedWithReconnect_contract:
  assumes "usable c w" and "sendChunkedWithReconnect ctx data (c, w) = (r, (c', w'))"
  shows "returns r \<and> usable c' w' \<and> nconns w \<le> nconns w' \<and> same_settings c c' \<and>
    (connection c' = connection c \<or> nconns w \<le> the (connection c'))"
proof -
  obtain q c1 w1 where q: "SendChunked ctx data (c, w) = (q, (c1, w1))" by (metis prod_cases3)
  note send = chunked.request_contract [OF assms(1) q]
  show ?thesis
  proof (cases "\<exists>err. q = Err err \<and> errors_Is err ErrConnClosed")
    case True
    then obtain err where "q = Err err" "errors_Is err ErrConnClosed" by blast
    with assms(2) q have "reconnectLoop (SendChunked ctx data) ctx 1 maxReconnectAttempts err (c1, w1) = (r, (c', w'))"
      by (simp add: sendChunkedWithReconnect_def)
    from chunked.reconnectLoop_contract [OF _ this] send show ?thesis by (auto simp: same_settings_def)
  next
    case False
    with assms(2) q send show ?thesis by (cases q) (auto simp: sendChunkedWithReconnect_def)
  qed
qed

subsection \<open>Operations keep the client's invariant\<close>

lemma finish_pure: "\<exists>r. finish parse f zero resp s = (r, s) \<and> returns r"
  by (auto simp: finish_def split: sum.splits ResponseStatus.splits option.splits)

lemma uses_connection_plainI:
  assumes "\<And>c w r c' w'. usable c w \<Longrightarrow> m (c, w) = (r, (c', w')) \<Longrightarrow>
      returns r \<and> usable c' w' \<and> nconns w \<le> nconns w' \<and>
      (connection c' = connection c \<or> nconns w \<le> the (connection c'))"
  shows "uses_connection (\<lambda>t. case m t of (r, t') \<Rightarrow> ((r, ()), t'))"
  unfolding uses_connection_def using assms by (simp split: prod.splits)

text \<open>A request with reconnects, its errors wrapped, followed by the interpretation of the response.\<close>

lemma uses_connection_request:
  assumes "\<And>c w r c' w'. usable c w \<Longrightarrow> send (c, w) = (r, (c', w')) \<Longrightarrow>
      returns r \<and> usable c' w' \<and> nconns w \<le> nconns w' \<and> same_settings c c' \<and>
      (connection c' = connection c \<or> nconns w \<le> the (connection c'))"
  shows "uses_connection (\<lambda>t. case bindR (wrapErr fm send) (finish parse f zero) t of (r, t') \<Rightarrow> ((r, ()), t'))"
proof (rule uses_connection_plainI)
  fix c w r c' w'
  assume c: "usable c w" and b: "bindR (wrapErr fm send) (finish parse f zero) (c, w) = (r, (c', w'))"
  obtain q c1 w1 where q: "send (c, w) = (q, (c1, w1))" by (metis prod_cases3)
  have "c' = c1 \<and> w' = w1 \<and> returns r"
  proof (cases q)
    case (Ok resp)
    with b q finish_pure [of parse f zero resp "(c1, w1)"] show ?thesis by (auto simp: io_simps)
  qed (use b q assms [OF c q] in \<open>auto simp: io_simps\<close>)
  with assms [OF c q] show "returns r \<and> usable c' w' \<and> nconns w \<le> nconns w' \<and>
      (connection c' = connection c \<or> nconns w \<le> the (connection c'))" by simp
qed

lemma withConnection_ok:
  assumes "uses_connection (\<lambda>t. case m t of (r, t') \<Rightarrow> ((r, ()), t'))"
  shows "preserves (client_from n) (withConnection m)"
proof (rule preservesI)
  fix s assume s: "client_from n s"
  then have "client_inv s" by (simp add: client_from_def)
  from withConnectionH_result [OF this assms, of "()"] s
  show "returns (fst (withConnection m s)) \<and> client_from n (snd (withConnection m s))"
    by (auto simp: withConnection_def client_from_def)
qed

lemma exchange_ok: "preserves (client_from n) (exchange parse f zero ctx command)"
  unfolding exchange_def
  by (intro withConnection_ok uses_connection_request sendWithReconnect_contract)

text \<open>A clean pool of command buffers stays clean, and an operation starts with an empty buffer.\<close>

lemma client_inv_buffers:
  "client_from n (cl, bufs, w) \<longleftrightarrow> client_from n (cl, [], w) \<and> BytesBufferPool_clean bufs"
  by (auto simp: client_from_def client_inv_def BytesBufferPool_clean_def)

lemma withCommandH_result:
  assumes "client_from n (cl, bufs, w)"
    and "\<And>cmd s. client_from n s \<Longrightarrow> returns (fst (fst (m cmd s))) \<and> client_from n (snd (m cmd s))"
  shows "returns (fst (fst (withCommandH write m (cl, bufs, w)))) \<and>
    client_from n (snd (withCommandH write m (cl, bufs, w))) \<and>
    (\<exists>bufs1. client_from n (cl, bufs1, w) \<and> fst (withCommandH write m (cl, bufs, w)) = fst (m (write []) (cl, bufs1, w)))"
proof -
  obtain buf bufs1 where g: "BytesBufferPool_Get bufs = (buf, bufs1)" by force
  have clean: "BytesBufferPool_clean bufs" using assms(1) client_inv_buffers by blast
  have buf: "buf = []" and bufs1: "client_from n (cl, bufs1, w)"
    using commandBuffers.get_fresh [OF clean] commandBuffers.get_clean [OF clean] g assms(1)
      client_inv_buffers [of n cl bufs w] client_inv_buffers [of n cl bufs1 w] by auto
  obtain r h cl' bufs2 w' where m: "m (write []) (cl, bufs1, w) = ((r, h), (cl', bufs2, w'))"
    by (metis surj_pair)
  have r: "returns r" "client_from n (cl', bufs2, w')" using assms(2) [OF bufs1, of "write []"] m by auto
  then have "client_from n (cl', BytesBufferPool_Put (write []) bufs2, w')"
    using client_inv_buffers [of n cl' bufs2 w'] client_inv_buffers [of n cl' "BytesBufferPool_Put (write []) bufs2" w']
      commandBuffers.put_clean [of bufs2 "write []"] by auto
  moreover have "withCommandH write m (cl, bufs, w) = ((r, h), (cl', BytesBufferPool_Put (write []) bufs2, w'))"
    using g buf m r(1) by (cases r) (auto simp: withCommandH_def)
  ultimately show ?thesis using r m bufs1 by auto
qed

lemma withCommand_ok:
  assumes "\<And>cmd. preserves (client_from n) (m cmd)"
  shows "preserves (client_from n) (withCommand write m)"
proof (rule preservesI)
  fix s assume s: "client_from n s"
  obtain cl bufs w where cl: "s = (cl, bufs, w)" by (cases s)
  have s': "client_from n (cl, bufs, w)" using s cl by simp
  let ?m = "\<lambda>cmd t. case m cmd t of (r, t') \<Rightarrow> ((r, ()), t')"
  have "returns (fst (fst (?m cmd t))) \<and> client_from n (snd (?m cmd t))" if "client_from n t" for cmd t
    using preservesD [OF assms that, of cmd] by (auto split: prod.splits)
  from withCommandH_result [where m = ?m, OF s' this]
  have "returns (fst (fst (withCommandH write ?m (cl, bufs, w)))) \<and>
    client_from n (snd (withCommandH write ?m (cl, bufs, w)))" by blast
  then show "returns (fst (withCommand write m s)) \<and> client_from n (snd (withCommand write m s))"
    by (auto simp: withCommand_def cl split: prod.splits)
qed

lemmas operation_defs =
  Client_Incr_def Client_Get_def Client_Watch_def Client_Del_def Client_MDel_def
  Client_RLimitFixedWindow_def Client_RLimitSlidingWindow_def Client_RLimitTokenBucket_def rlimit_def
  Client_QuotaAcquire_def Client_QuotaAcquireLease_def Client_QuotaAcquireN_def quotaAcquire_def
  Client_QuotaSet_def Client_QuotaSetN_def Client_QuotaRelease_def Client_QuotaDelete_def
  quotaBool_def boolCommand_def Client_QuotaInfo_def Client_Scan_def Client_PScan_def scan_def
  Client_FlushDB_def Client_Truncate_def

subsection \<open>One exchange in detail\<close>

lemma exchange_eval:
  assumes "cp_connections (client_pool cl) = Some c # cs" "\<not> cp_closed (client_pool cl)"
    "\<not> cp_chan_closed (client_pool cl)" "cp_wg (client_pool cl) = 0" "length cs < cp_size (client_pool cl)"
    and "sendWithReconnect ctx command (c, w) = (q, (c', w'))" "returns q"
  shows "exchange parse f zero ctx command (cl, bufs, w) =
    ((case q of Ok resp \<Rightarrow> fst (finish parse f zero resp (c', w'))
      | Err e \<Rightarrow> Err (Errorf ''send: %w'' [W e]) | Panic p \<Rightarrow> Panic p | Blocked \<Rightarrow> Blocked),
     (cl\<lparr>client_pool := (client_pool cl)\<lparr>cp_connections := cs @ [Some c'], cp_wg := 0\<rparr>\<rparr>, bufs, w'))"
proof (cases q)
  case (Ok resp)
  obtain r where r: "finish parse f zero resp (c', w') = (r, (c', w'))" "returns r"
    using finish_pure [of parse f zero resp "(c', w')"] by blast
  with assms Ok show ?thesis
    by (cases r) (auto simp: exchange_def withConnection_def withConnectionH_def GetConnection_def bindR_def
      wrapErr_simps wg_Add_def wg_Done_def Let_def releaseAfter_def ReleaseConnection_def)
next
  case (Err e)
  with assms show ?thesis
    by (auto simp: exchange_def withConnection_def withConnectionH_def GetConnection_def bindR_def
      wrapErr_simps wg_Add_def wg_Done_def Let_def releaseAfter_def ReleaseConnection_def)
qed (use assms in auto)

lemma withCommand_eval:
  assumes "BytesBufferPool_clean bufs" and "m (write []) (cl, snd (BytesBufferPool_Get bufs), w) = (r, (cl', bufs', w'))"
    and "returns r"
  shows "withCommand write m (cl, bufs, w) = (r, (cl', BytesBufferPool_Put (write []) bufs', w'))"
proof -
  obtain buf bufs1 where g: "BytesBufferPool_Get bufs = (buf, bufs1)" by force
  with commandBuffers.get_fresh [OF assms(1)] have "buf = []" by simp
  with assms g show ?thesis by (cases r) (auto simp: withCommand_def withCommandH_def)
qed

text \<open>A client with a pool of size one whose connection is \<open>c\<close>.\<close>

definition single_connection :: "TCPClient \<Rightarrow> ConnectionPool \<Rightarrow> bool" where
  "single_connection c cp \<longleftrightarrow>
     cp_connections cp = [Some c] \<and> cp_size cp = 1 \<and> \<not> cp_closed cp \<and> \<not> cp_chan_closed cp \<and> cp_wg cp = 0"

text \<open>A counter's value, as \<^verbatim>\<open>Get\<close> asks for it, on that connection.\<close>

lemma Client_Get_eval:
  assumes "single_connection c (client_pool cl)" and "BytesBufferPool_clean bufs"
    and "sendWithReconnect ctx (writeCommand [] CommandGet key) (c, w) = (q, (c', w'))" and "returns q"
  shows "\<exists>cl' bufs'. Client_Get ctx key (cl, bufs, w) =
    ((case q of Ok resp \<Rightarrow> fst (finish parseResponse id 0 resp (c', w'))
      | Err e \<Rightarrow> Err (Errorf ''send: %w'' [W e]) | Panic p \<Rightarrow> Panic p | Blocked \<Rightarrow> Blocked), (cl', bufs', w')) \<and>
    single_connection c' (client_pool cl') \<and> BytesBufferPool_clean bufs'"
proof -
  let ?bufs = "snd (BytesBufferPool_Get bufs)"
  let ?r = "case q of Ok resp \<Rightarrow> fst (finish parseResponse id 0 resp (c', w'))
      | Err e \<Rightarrow> Err (Errorf ''send: %w'' [W e]) | Panic p \<Rightarrow> Panic p | Blocked \<Rightarrow> Blocked"
  let ?cl = "cl\<lparr>client_pool := (client_pool cl)\<lparr>cp_connections := [Some c'], cp_wg := 0\<rparr>\<rparr>"
  have "exchange parseResponse id 0 ctx (writeCommand [] CommandGet key) (cl, ?bufs, w) = (?r, (?cl, ?bufs, w'))"
    using assms(1,3,4) exchange_eval [where cs = "[]" and c = c and cl = cl] by (auto simp: single_connection_def)
  moreover have "returns ?r"
    using assms(4) finish_pure [of parseResponse id 0 _ "(c', w')"] by (cases q) (auto, metis fst_conv)
  ultimately have "Client_Get ctx key (cl, bufs, w) =
      (?r, (?cl, BytesBufferPool_Put (writeCommand [] CommandGet key) ?bufs, w'))"
    unfolding Client_Get_def by (intro withCommand_eval assms(2))
  moreover have "single_connection c' (client_pool ?cl)" using assms(1) by (simp add: single_connection_def)
  ultimately show ?thesis
    using commandBuffers.get_clean [OF assms(2)] commandBuffers.put_clean by blast
qed

text \<open>What a responsive connection is: open, with time left, and the response \<open>m\<close> next to arrive.\<close>

definition responsive :: "TCPClient \<Rightarrow> nat \<Rightarrow> ctx \<Rightarrow> bytes \<Rightarrow> world \<Rightarrow> rx_script \<Rightarrow> bytes \<Rightarrow> rx_script \<Rightarrow> bool" where
  "responsive c fd ctx request w pre m rest \<longleftrightarrow>
     tcp_wf c \<and> connection c = Some fd \<and> int (length request) \<le> maxMessageSize c \<and> maxMessageSize c < 2 ^ 32 \<and>
     \<not> nc_closed (conns w fd) \<and> nc_tx (conns w fd) = [] \<and> now w < TCPClient_deadline c ctx (now w) \<and>
     nc_in (conns w fd) = pre @ rest \<and> map snd pre = map RxByte (frame m) \<and>
     prompt (TCPClient_deadline c ctx (now w)) pre \<and> int (length m) \<le> maxMessageSize c"

lemma sendWithReconnect_answered:
  assumes "responsive c fd ctx request w pre m rest"
  shows "\<exists>p. sendWithReconnect ctx request (c, w) = (Ok m, (c\<lparr>bufferPool := p\<rparr>,
    w\<lparr>now := arrival (now w) pre, conns := (conns w)(fd := (conns w fd)\<lparr>
      nc_deadline := Some (TCPClient_deadline c ctx (now w)),
      nc_out := nc_out (conns w fd) @ frame request, nc_in := rest\<rparr>)\<rparr>))"
  using Send_answered [of c fd request w ctx pre rest m] assms
  by (auto simp: responsive_def sendWithReconnect_def)

definition example_cl :: "TCPClient option list \<Rightarrow> nat \<Rightarrow> Client" where
  "example_cl cs n = \<lparr>client_pool = example_pool cs n\<rparr>"

lemma example_single_connection: "single_connection c (client_pool (example_cl [Some c] 1))"
  by (simp add: single_connection_def example_cl_def)

text \<open>A request whose context expires before the response arrives: the error is the context's, and the
  connection, with the response still to come, is used as it is.\<close>

lemma sendWithReconnect_expired:
  assumes "tcp_wf c" "connection c = Some fd" "int (length request) \<le> maxMessageSize c" "maxMessageSize c < 2 ^ 32"
    and "\<not> nc_closed (conns w fd)" "nc_tx (conns w fd) = []"
    and "ctx_deadline ctx = Some d" "ctx_cancel ctx = None" "now w < d" "d \<le> now w + idleTimeout c"
    and "silent_until d (nc_in (conns w fd))"
  shows "\<exists>p w'. sendWithReconnect ctx request (c, w) = (Err (Sentinel CtxDeadlineExceeded), (c\<lparr>bufferPool := p\<rparr>, w')) \<and>
    tcp_wf (c\<lparr>bufferPool := p\<rparr>) \<and> now w' = d \<and> nc_in (conns w' fd) = nc_in (conns w fd) \<and>
    nc_tx (conns w' fd) = [] \<and> \<not> nc_closed (conns w' fd)"
proof -
  have dl: "TCPClient_deadline c ctx (now w) = d" using assms(7,10) by (simp add: TCPClient_deadline_def Let_def)
  obtain p w' where s: "Send ctx request (c, w) =
      (Err (Errorf ''%w: %w'' [W (Sentinel ErrConnClosed), W errIOTimeout]), (c\<lparr>bufferPool := p\<rparr>, w'))"
    and w': "now w' = d" "nc_in (conns w' fd) = nc_in (conns w fd)" "nc_tx (conns w' fd) = []" "\<not> nc_closed (conns w' fd)"
    using Send_times_out [of c fd request w ctx] assms dl by auto
  have "ctx_Err ctx d = Some (Sentinel CtxDeadlineExceeded)"
    using assms(7,8) by (simp add: ctx_Err_def expired_def)
  with s w' have "sendWithReconnect ctx request (c, w) = (Err (Sentinel CtxDeadlineExceeded), (c\<lparr>bufferPool := p\<rparr>, w'))"
    by (simp add: sendWithReconnect_def maxReconnectAttempts_def numeral_eq_Suc)
  moreover have "tcp_wf (c\<lparr>bufferPool := p\<rparr>)" using Send_result [OF assms(1,2) s] by simp
  ultimately show ?thesis using w' by blast
qed

text \<open>C35: Responses are matched to requests only by their order, and an expired context does not
  discard the connection: when a call's context expires before its response arrives, the call fails and
  its connection goes back into the pool; the next call on that connection, for whatever key, returns the
  late response to the first call as its own result.\<close>

theorem expired_call_hands_its_response_to_the_next:
  assumes "single_connection c (client_pool cl)" and "BytesBufferPool_clean bufs"
    and "tcp_wf c" "connection c = Some fd" "maxMessageSize c < 2 ^ 32"
    and "int (length (writeCommand [] CommandGet key1)) \<le> maxMessageSize c"
    and "int (length (writeCommand [] CommandGet key2)) \<le> maxMessageSize c"
    and "\<not> nc_closed (conns w fd)" "nc_tx (conns w fd) = []"
    and "ctx_deadline ctx1 = Some d" "ctx_cancel ctx1 = None" "now w < d" "d \<le> now w + idleTimeout c"
    and "nc_in (conns w fd) = pre @ rest" "map snd pre = map RxByte (frame (ok_response [FormatUint v]))"
    and "silent_until d pre" "prompt (TCPClient_deadline c ctx2 d) pre" "d < TCPClient_deadline c ctx2 d"
    and "int (length (ok_response [FormatUint v])) \<le> maxMessageSize c"
  shows "fst (Client_Get ctx1 key1 (cl, bufs, w)) = Err (Errorf ''send: %w'' [W (Sentinel CtxDeadlineExceeded)]) \<and>
    fst (Client_Get ctx2 key2 (snd (Client_Get ctx1 key1 (cl, bufs, w)))) = Ok v"
proof -
  let ?m = "ok_response [FormatUint v]"
  have "pre \<noteq> []" using assms(15) by (auto simp: frame_def PutUint32_def)
  then have silent: "silent_until d (nc_in (conns w fd))"
    using assms(14,16) by (cases pre) (auto simp: silent_until_def)
  from sendWithReconnect_expired [OF assms(3,4,6,5,8-13) silent] obtain p w1 where
    first: "sendWithReconnect ctx1 (writeCommand [] CommandGet key1) (c, w) =
      (Err (Sentinel CtxDeadlineExceeded), (c\<lparr>bufferPool := p\<rparr>, w1))"
    and w1: "tcp_wf (c\<lparr>bufferPool := p\<rparr>)" "now w1 = d" "nc_in (conns w1 fd) = pre @ rest"
      "nc_tx (conns w1 fd) = []" "\<not> nc_closed (conns w1 fd)"
    using assms(14) by auto
  from Client_Get_eval [OF assms(1,2) first] obtain cl1 bufs1 where
    get1: "Client_Get ctx1 key1 (cl, bufs, w) =
      (Err (Errorf ''send: %w'' [W (Sentinel CtxDeadlineExceeded)]), (cl1, bufs1, w1))"
      "single_connection (c\<lparr>bufferPool := p\<rparr>) (client_pool cl1)" "BytesBufferPool_clean bufs1" by auto
  have "responsive (c\<lparr>bufferPool := p\<rparr>) fd ctx2 (writeCommand [] CommandGet key2) w1 pre ?m rest"
    using assms w1 by (simp add: responsive_def)
  from sendWithReconnect_answered [OF this] obtain c2 w2 where
    second: "sendWithReconnect ctx2 (writeCommand [] CommandGet key2) (c\<lparr>bufferPool := p\<rparr>, w1) = (Ok ?m, (c2, w2))"
    by blast
  from Client_Get_eval [OF get1(2,3) second] have "fst (Client_Get ctx2 key2 (cl1, bufs1, w1)) = Ok v"
    by (auto simp: finish_def ok_response_parsers wire_fields)
  with get1(1) show ?thesis by simp
qed

theorem expired_call_hands_its_response_to_the_next_witness:
  "fst (Client_Get ctx_Background \<lparr>ck_Key = ''b'', ck_Capping = 60\<rparr>
     (snd (Client_Get \<lparr>ctx_deadline = Some 5, ctx_cancel = None\<rparr> \<lparr>ck_Key = ''a'', ck_Capping = 60\<rparr>
       (example_cl [Some (example_client 64)] 1, [], example_world (example_conn (arriving 7 (frame ''ok|5'')) []))))) = Ok 5"
proof -
  have cmds: "writeCommand [] CommandGet \<lparr>ck_Key = ''a'', ck_Capping = 60\<rparr> = ''GET a 60''"
    "writeCommand [] CommandGet \<lparr>ck_Key = ''b'', ck_Capping = 60\<rparr> = ''GET b 60''"
    and five: "''ok|5'' = ok_response [FormatUint 5]" by code_simp+
  have len: "length (ok_response [FormatUint 5]) = 4" unfolding five [symmetric] by simp
  have "silent_until 5 (arriving 7 bs)" for bs by (cases bs) (auto simp: silent_until_def arriving_def)
  then show ?thesis
    using expired_call_hands_its_response_to_the_next [where c = "example_client 64" and
      cl = "example_cl [Some (example_client 64)] 1" and bufs = "[]" and fd = 0 and
      ?key1.0 = "\<lparr>ck_Key = ''a'', ck_Capping = 60\<rparr>" and ?key2.0 = "\<lparr>ck_Key = ''b'', ck_Capping = 60\<rparr>" and
      ?ctx1.0 = "\<lparr>ctx_deadline = Some 5, ctx_cancel = None\<rparr>" and ?ctx2.0 = ctx_Background and d = 5 and v = 5 and
      w = "example_world (example_conn (arriving 7 (frame ''ok|5'')) [])" and
      pre = "arriving 7 (frame ''ok|5'')" and rest = "[]"] example_single_connection [of "example_client 64"]
    by (simp add: cmds five len BytesBufferPool_clean_def)
qed

subsection \<open>How often a request is repeated\<close>

lemma usable_Reconnect:
  assumes "usable c w" and "Reconnect (c, w) = (r, (c', w'))"
  shows "returns r \<and> usable c' w' \<and> same_settings c c' \<and> dialed w' = dialed w @ [(address c, tlsConfig c)]"
proof -
  obtain fd where fd: "tcp_wf c" "connection c = Some fd" "fd < nconns w" using assms(1) by (rule usableE)
  note rc = Reconnect_result [OF fd assms(2)]
  obtain q w1 where cl: "conn_Close fd w = (q, w1)" by force
  then have w1: "dialed w1 = dialed w" "returns q" by (auto simp: conn_Close_def split: if_splits)
  have "connect (c, w1) = (r, (c', w'))"
    using assms(2) fd cl w1 by (cases q) (auto simp: Reconnect_def TCPClient_Close_def on_conn_def)
  with connect_result(1) [OF _ this] fd(1) w1 rc show ?thesis
    by (auto simp: tcp_wf_iff usable_def)
qed

text \<open>A call that failed because the connection was lost, the only failure after which it is tried again.\<close>

definition lost_connection :: "'a res \<times> 's \<Rightarrow> bool" where
  "lost_connection out \<longleftrightarrow> (\<exists>err s. out = (Err err, s) \<and> errors_Is err ErrConnClosed)"

lemma lost_connection_simps [simp]:
  "lost_connection (Ok x, s) = False"
  "lost_connection (Err err, s) = errors_Is err ErrConnClosed"
  by (auto simp: lost_connection_def)

text \<open>The states a successful reconnect leads to.\<close>

definition reconnected :: "tcp_state \<Rightarrow> bool" where
  "reconnected t \<longleftrightarrow> (\<exists>t0. Reconnect t0 = (Ok (), t))"

lemma reconnectedI: "Reconnect t0 = (Ok u, t) \<Longrightarrow> reconnected t"
  by (auto simp: reconnected_def simp del: split_paired_Ex)

context request_sender
begin

text \<open>
  The outcomes of the loop with \<open>n\<close> attempts left: it dials the client's address at most \<open>n\<close> times. The
  states in which it sends are \<open>sends\<close>, each the result of a successful reconnect; all sends but the last
  lost their connection. The loop returns what the last one returned, or that one lost its
  connection too and the context is done or the attempts are used up.
\<close>

definition loop_outcome :: "ctx \<Rightarrow> bytes \<Rightarrow> nat \<Rightarrow> tcp_state \<Rightarrow> bytes res \<Rightarrow> tcp_state \<Rightarrow> nat \<Rightarrow> tcp_state list \<Rightarrow> bool" where
  "loop_outcome ctx data n s r s' j sends \<longleftrightarrow>
     j \<le> n \<and> dialed (snd s') = dialed (snd s) @ replicate j (address (fst s), tlsConfig (fst s)) \<and>
     length sends \<le> j \<and> (\<forall>t \<in> set sends. reconnected t) \<and>
     (\<forall>t \<in> set (butlast sends). lost_connection (request ctx data t)) \<and>
     (sends \<noteq> [] \<and> request ctx data (last sends) = (r, s') \<and> \<not> lost_connection (r, s') \<or>
      (\<forall>t \<in> set sends. lost_connection (request ctx data t)) \<and>
      (\<exists>err. r = Err err \<and> (ctx_Err ctx (now (snd s')) = Some err \<or>
         j = n \<and> (\<exists>last. err = Errorf ''reconnect attempts exceeded: %w'' [W last]))))"

lemma loop_outcome_reconnect_failed:
  assumes "loop_outcome ctx data n (c1, w1) r s' j sends"
    and "same_settings c c1" "dialed w1 = dialed w @ [(address c, tlsConfig c)]"
  shows "loop_outcome ctx data (Suc n) (c, w) r s' (Suc j) sends"
  using assms by (auto simp: loop_outcome_def same_settings_def)

lemma loop_outcome_send_lost:
  assumes "loop_outcome ctx data n (c2, w2) r s' j sends"
    and "same_settings c c2" "dialed w2 = dialed w @ [(address c, tlsConfig c)]"
    and "reconnected t" "lost_connection (request ctx data t)"
  shows "loop_outcome ctx data (Suc n) (c, w) r s' (Suc j) (t # sends)"
  using assms by (auto simp: loop_outcome_def same_settings_def split: if_splits)

lemma reconnectLoop_outcomes:
  assumes "usable c w" and "reconnectLoop (request ctx data) ctx k n e (c, w) = (r, s')"
  shows "\<exists>j sends. loop_outcome ctx data n (c, w) r s' j sends"
  using assms
proof (induction n arbitrary: k e c w)
  case 0
  then show ?case by (intro exI [of _ 0] exI [of _ "[]"]) (auto simp: loop_outcome_def)
next
  case (Suc n)
  show ?case
  proof (cases "ctx_Err ctx (now w)")
    case (Some err)
    with Suc.prems show ?thesis by (intro exI [of _ 0] exI [of _ "[]"]) (auto simp: loop_outcome_def)
  next
    case None
    obtain q c1 w1 where q: "Reconnect (c, w) = (q, (c1, w1))" by (metis prod_cases3)
    note rc = usable_Reconnect [OF Suc.prems(1) q]
    show ?thesis
    proof (cases q)
      case (Err err)
      with Suc.prems(2) None q have
        "reconnectLoop (request ctx data) ctx (k + 1) n (Errorf ''reconnect attempt %d: %w'' [D (int k), W err]) (c1, w1) = (r, s')"
        by simp
      with Suc.IH rc loop_outcome_reconnect_failed show ?thesis by blast
    next
      case (Ok u)
      obtain r2 c2 w2 where r2: "request ctx data (c1, w1) = (r2, (c2, w2))" by (metis prod_cases3)
      note req = request_contract [OF _ r2]
      show ?thesis
      proof (cases "lost_connection (r2, (c2, w2))")
        case True
        then obtain err where err: "r2 = Err err" "errors_Is err ErrConnClosed" by (auto simp: lost_connection_def)
        with Suc.prems(2) None q Ok r2 have "reconnectLoop (request ctx data) ctx (k + 1) n err (c2, w2) = (r, s')"
          by simp
        with Suc.IH req rc obtain j sends where "loop_outcome ctx data n (c2, w2) r s' j sends" by blast
        with req rc True q r2 Ok have "loop_outcome ctx data (Suc n) (c, w) r s' (Suc j) ((c1, w1) # sends)"
          by (intro loop_outcome_send_lost [of _ _ _ c2 w2] reconnectedI [where t = "(c1, w1)"]) (auto simp: same_settings_def)
        then show ?thesis by blast
      next
        case False
        with Suc.prems(2) None q Ok r2 req rc have "r = r2" "s' = (c2, w2)" by (cases r2; auto)+
        with req rc False q Ok r2 have "loop_outcome ctx data (Suc n) (c, w) r s' 1 [(c1, w1)]"
          by (auto simp: loop_outcome_def same_settings_def intro: reconnectedI)
        then show ?thesis by blast
      qed
    qed (use rc in auto)
  qed
qed

end



subsection \<open>Opening a client\<close>

lemma GetConnection_of_empty:
  assumes "pool_inv cp w" "cp_connections cp = []" "\<not> cp_closed cp" "cp_newConn cp = new"
    and "GetConnection (cp, w) = (q, (cp1, w1))" "new w = (x, w2)" "returns x"
  shows "w1 = w2 \<and> ((\<exists>e e'. q = Err e \<and> x = Err e') \<or>
    (\<exists>c. q = Ok (Some c) \<and> x = Ok c \<and> cp1 = cp\<lparr>cp_wg := cp_wg cp + 1\<rparr>))"
proof -
  have "0 \<le> cp_wg cp" "\<not> cp_chan_closed cp" using assms(1,3) by (auto simp: pool_inv_def)
  with assms(2-) show ?thesis
    by (cases x) (auto simp: GetConnection_def bindR_def wg_Add_def wg_Done_def Let_def)
qed

text \<open>
  Opening connections for an empty pool: they are numbered in the order of opening and stay open; a
  failure closes at most the last one.
\<close>

lemma getConnections_result:
  assumes "pool_inv cp w" "cp_connections cp = []" "\<not> cp_closed cp"
    and "cp_newConn cp = NewTCPClient addr 4096 idle opts"
    and "getConnections n cs (cp, w) = (r, (cp', w'))"
  shows "returns r \<and> (\<forall>fd < nconns w. conns w' fd = conns w fd) \<and> nconns w \<le> nconns w' \<and>
    (\<forall>fd. nconns w \<le> fd \<and> Suc fd < nconns w' \<longrightarrow> \<not> nc_closed (conns w' fd)) \<and>
    (\<forall>l. r = Ok l \<longrightarrow> (\<exists>new. l = cs @ map Some new \<and> length new = n \<and> list_all (\<lambda>c. usable c w') new \<and>
        map (\<lambda>c. the (connection c)) new = [nconns w..<nconns w + n] \<and> nconns w' = nconns w + n \<and>
        cp' = cp\<lparr>cp_wg := cp_wg cp + int n\<rparr> \<and> (\<forall>fd. nconns w \<le> fd \<and> fd < nconns w' \<longrightarrow> \<not> nc_closed (conns w' fd))))"
  using assms
proof (induction n arbitrary: cs cp w)
  case 0
  then show ?case by auto
next
  case (Suc n)
  obtain q cp1 w1 where g: "GetConnection (cp, w) = (q, (cp1, w1))" by (metis prod_cases3)
  note get = newTCPClient.Get_result [OF Suc.prems(1,4) g]
  obtain x w2 where x: "NewTCPClient addr 4096 idle opts w = (x, w2)" by force
  note new = NewTCPClient_result [OF _ x, simplified]
  note dial = GetConnection_of_empty [OF Suc.prems(1-4) g x new(1)]
  then have w1: "w1 = w2" by blast
  show ?case
  proof (cases "\<exists>e. q = Err e")
    case True
    then obtain e where e: "q = Err e" by blast
    then have "r = Err e" "w' = w1" using Suc.prems(5) g by (auto simp: io_simps)
    moreover have "\<exists>e'. x = Err e'" using dial e by auto
    ultimately show ?thesis using w1 new(3,4,6) by auto
  next
    case False
    with dial obtain c where c: "q = Ok (Some c)" and x': "x = Ok c" and cp1: "cp1 = cp\<lparr>cp_wg := cp_wg cp + 1\<rparr>" by auto
    have c': "usable c w1" "connection c = Some (nconns w)" "nconns w1 = Suc (nconns w)"
      "\<not> nc_closed (conns w1 (nconns w))" using new(5) [OF x'] w1 by (auto simp: usable_def)
    have rest: "getConnections n (cs @ [Some c]) (cp1, w1) = (r, (cp', w'))"
      using Suc.prems(5) g c by (simp add: io_simps)
    have "pool_inv cp1 w1" "cp_connections cp1 = []" "\<not> cp_closed cp1" "cp_newConn cp1 = NewTCPClient addr 4096 idle opts"
      using get cp1 Suc.prems(2-4) by auto
    note IH = Suc.IH [OF this rest]
    have old: "conns w' fd = conns w fd" if "fd < nconns w" for fd
      using IH that c'(3) new(4) [of fd] w1 by auto
    have opened: "\<not> nc_closed (conns w' (nconns w))" using IH c'(3,4) by auto
    show ?thesis
    proof (intro conjI allI impI)
      show "\<not> nc_closed (conns w' fd)" if "nconns w \<le> fd \<and> Suc fd < nconns w'" for fd
        using IH opened that c'(3) by (cases "fd = nconns w") auto
      fix l assume "r = Ok l"
      with IH obtain new' where new': "l = (cs @ [Some c]) @ map Some new'" "length new' = n"
        "list_all (\<lambda>c. usable c w') new'" "map (\<lambda>c. the (connection c)) new' = [nconns w1..<nconns w1 + n]"
        "nconns w' = nconns w1 + n" "cp' = cp1\<lparr>cp_wg := cp_wg cp1 + int n\<rparr>"
        "\<forall>fd. nconns w1 \<le> fd \<and> fd < nconns w' \<longrightarrow> \<not> nc_closed (conns w' fd)" by blast
      have "usable c w'" using usable_mono [OF c'(1)] new'(5) by simp
      moreover have "\<not> nc_closed (conns w' fd)" if "nconns w \<le> fd \<and> fd < nconns w'" for fd
        using new'(7) opened that c'(3) by (cases "fd = nconns w") auto
      moreover have "map (\<lambda>c. the (connection c)) (c # new') = [nconns w..<nconns w + Suc n]"
        using new'(4) c'(2,3) by (simp add: upt_conv_Cons)
      ultimately show "\<exists>new. l = cs @ map Some new \<and> length new = Suc n \<and> list_all (\<lambda>c. usable c w') new \<and>
        map (\<lambda>c. the (connection c)) new = [nconns w..<nconns w + Suc n] \<and> nconns w' = nconns w + Suc n \<and>
        cp' = cp\<lparr>cp_wg := cp_wg cp + int (Suc n)\<rparr> \<and> (\<forall>fd. nconns w \<le> fd \<and> fd < nconns w' \<longrightarrow> \<not> nc_closed (conns w' fd))"
        using new' c'(3) cp1 by (intro exI [of _ "c # new'"]) auto
    qed (use IH old c'(3) in auto)
  qed
qed

lemma releaseConnections_result:
  assumes "pool_inv cp w" "\<not> cp_closed cp" "length (cp_connections cp) + length cs \<le> cp_size cp"
    and "cp_wg cp = int (length cs)" "list_all (\<lambda>c. usable c w) cs"
    and "distinct (map conn_fd (cp_connections cp) @ map (\<lambda>c. the (connection c)) cs)"
  shows "releaseConnections (map Some cs) (cp, w) =
    (Ok (), (cp\<lparr>cp_connections := cp_connections cp @ map Some cs, cp_wg := 0\<rparr>, w)) \<and>
    pool_inv (cp\<lparr>cp_connections := cp_connections cp @ map Some cs, cp_wg := 0\<rparr>) w"
  using assms
proof (induction cs arbitrary: cp)
  case (Cons c cs)
  let ?cp = "cp\<lparr>cp_connections := cp_connections cp @ [Some c], cp_wg := cp_wg cp - 1\<rparr>"
  have "ReleaseConnection (Some c) (cp, w) = (Ok (), (?cp, w))" "pool_inv ?cp w"
    using Release_result [of cp w c] Cons.prems by (auto simp: conn_fd_def)
  moreover have "conn_fd (Some c) = the (connection c)" by (simp add: conn_fd_def)
  ultimately show ?case
    using Cons.IH [of ?cp] Cons.prems by (auto simp: io_simps)
qed (simp add: pool_inv_def)

text \<open>What \<^verbatim>\<open>New\<close> gives: a client whose pooled connections are the ones opened last, in order.\<close>

definition opened_as :: "string \<Rightarrow> int \<Rightarrow> int \<Rightarrow> Option list \<Rightarrow> nat \<Rightarrow> Client \<Rightarrow> bool" where
  "opened_as addr idle poolSize opts n cl \<longleftrightarrow>
     \<not> cp_closed (client_pool cl) \<and> cp_newConn (client_pool cl) = NewTCPClient addr 4096 idle opts \<and>
     map conn_fd (cp_connections (client_pool cl)) = [n..<n + nat poolSize]"

lemma New_result:
  assumes "0 < poolSize" and "New addr idle poolSize opts w = (r, w')"
  shows "returns r" and "\<forall>fd < nconns w. conns w' fd = conns w fd" and "nconns w \<le> nconns w'"
    and "\<forall>fd. nconns w \<le> fd \<and> Suc fd < nconns w' \<longrightarrow> \<not> nc_closed (conns w' fd)"
    and "\<forall>cl. r = Ok cl \<longrightarrow> client_inv (cl, [], w') \<and> opened_as addr idle poolSize opts (nconns w) cl \<and>
      nconns w' = nconns w + nat poolSize \<and> (\<forall>fd. nconns w \<le> fd \<and> fd < nconns w' \<longrightarrow> \<not> nc_closed (conns w' fd))"
proof -
  let ?n = "nat poolSize" and ?new = "NewTCPClient addr 4096 idle opts"
  define cp where "cp = \<lparr>cp_connections = [], cp_size = ?n, cp_chan_closed = False, cp_wg = 0,
    cp_closed = False, cp_newConn = ?new\<rparr>"
  have cp: "NewConnectionPool poolSize ?new = Ok cp" "cp_connections cp = []" "cp_size cp = ?n"
    "\<not> cp_closed cp" "\<not> cp_chan_closed cp" "cp_wg cp = 0" "cp_newConn cp = ?new"
    using assms(1) by (simp_all add: NewConnectionPool_def cp_def)
  then have inv: "pool_inv cp w" by (simp add: pool_inv_def)
  obtain q cp1 w1 where q: "getConnections ?n [] (cp, w) = (q, (cp1, w1))" by (metis prod_cases3)
  note get = getConnections_result [OF inv cp(2,4,7) q]
  have "w' = w1 \<and> returns r \<and> (\<forall>cl. r = Ok cl \<longrightarrow> client_inv (cl, [], w1) \<and>
      opened_as addr idle poolSize opts (nconns w) cl \<and> nconns w1 = nconns w + ?n \<and>
      (\<forall>fd. nconns w \<le> fd \<and> fd < nconns w1 \<longrightarrow> \<not> nc_closed (conns w1 fd)))"
  proof (cases q)
    case (Err e)
    with assms(2) cp(1) q show ?thesis by (auto simp: New_def Let_def io_simps)
  next
    case (Ok l)
    with get obtain new where new: "l = map Some new" "length new = ?n" "list_all (\<lambda>c. usable c w1) new"
      "map (\<lambda>c. the (connection c)) new = [nconns w..<nconns w + ?n]" "nconns w1 = nconns w + ?n"
      "cp1 = cp\<lparr>cp_wg := int ?n\<rparr>" "\<forall>fd. nconns w \<le> fd \<and> fd < nconns w1 \<longrightarrow> \<not> nc_closed (conns w1 fd)"
      using cp(6) by auto
    let ?cp = "cp1\<lparr>cp_connections := map Some new, cp_wg := 0\<rparr>"
    have "pool_inv cp1 w1" using new(6) cp(2-6) by (simp add: pool_inv_def)
    then have rel: "releaseConnections (map Some new) (cp1, w1) = (Ok (), (?cp, w1))" "pool_inv ?cp w1"
      using releaseConnections_result [of cp1 w1 new] new cp(2-6) by auto
    have r: "r = Ok \<lparr>client_pool = ?cp\<rparr>" "w' = w1"
      using assms(2) cp(1) q Ok new(1) rel(1) by (auto simp: New_def Let_def io_simps)
    have "client_inv (\<lparr>client_pool = ?cp\<rparr>, [], w1)"
      using rel(2) new(6) cp(3,7) assms(1) by (auto simp: client_inv_def BytesBufferPool_clean_def)
    moreover have "opened_as addr idle poolSize opts (nconns w) \<lparr>client_pool = ?cp\<rparr>"
      using new(4,6) cp(4,7) by (simp add: opened_as_def comp_def conn_fd_def)
    ultimately show ?thesis using r new(5,7) by auto
  qed (use get in auto)
  with get show "returns r" and "\<forall>fd < nconns w. conns w' fd = conns w fd" and "nconns w \<le> nconns w'"
    and "\<forall>fd. nconns w \<le> fd \<and> Suc fd < nconns w' \<longrightarrow> \<not> nc_closed (conns w' fd)"
    and "\<forall>cl. r = Ok cl \<longrightarrow> client_inv (cl, [], w') \<and> opened_as addr idle poolSize opts (nconns w) cl \<and>
      nconns w' = nconns w + ?n \<and> (\<forall>fd. nconns w \<le> fd \<and> fd < nconns w' \<longrightarrow> \<not> nc_closed (conns w' fd))" by auto
qed


text \<open>A dial that is answered and whose handshake succeeds.\<close>

lemma NewTCPClient_answered:
  assumes "dials w = (a, Inr (pre @ rest, [])) # ds" and "map snd pre = map RxByte (frame (ok_response (hello_wire h)))"
    and "hi_version h = 1" "0 < hi_maxMessageSize h" "hi_maxMessageSize h < 2 ^ 31" "multiDataDelimiter \<notin> set (hi_role h)"
    and "applyOptions opts = Inr settings" "length (helloRequest (opt_token settings)) \<le> 4096"
    and "length (ok_response (hello_wire h)) \<le> 4096"
    and "0 < idle" "prompt (max (now w) a + min idle connectTimeout) pre"
  shows "\<exists>c w'. NewTCPClient addr 4096 idle opts w = (Ok c, w') \<and> dials w' = ds \<and> nconns w' = Suc (nconns w) \<and>
    now w' = arrival (max (now w) a) pre \<and> nc_in (conns w' (nconns w)) = rest \<and> maxMessageSize c = hi_maxMessageSize h"
proof -
  let ?fd = "nconns w" and ?t = "max (now w) a" and ?m = "ok_response (hello_wire h)"
  let ?req = "helloRequest (opt_token settings)"
  obtain pool where pool: "newBytesPool 4096 = Ok pool" "bytesPool_clean pool" "int (bp_size pool) = 4096"
    using newBytesPool_clean [of 4096] by (simp add: newBytesPool_def)
  define c where "c = \<lparr>connection = Some ?fd, address = addr, maxMessageSize = 4096, idleTimeout = idle,
    bufferPool = pool, token = opt_token settings, tlsConfig = opt_tlsConfig settings\<rparr>"
  define w1 where "w1 = snd (net_Dial addr (opt_tlsConfig settings) w)"
  have d: "dial addr (opt_tlsConfig settings) w = (Ok ?fd, w1)"
    using assms(1) by (cases "opt_tlsConfig settings") (auto simp: dial_def w1_def net_Dial_def wrapErr_def mapErr_def Let_def)
  have w1: "now w1 = ?t" "dials w1 = ds" "nconns w1 = Suc ?fd" "conns w1 ?fd =
      \<lparr>nc_in = pre @ rest, nc_tx = [], nc_out = [], nc_deadline = None, nc_closed = False\<rparr>"
    using assms(1) by (auto simp: w1_def net_Dial_def Let_def)
  let ?ctx = "ctx_WithTimeout (now w1) connectTimeout"
  have dl: "TCPClient_deadline c ?ctx ?t = ?t + min idle connectTimeout"
    by (auto simp: TCPClient_deadline_def ctx_WithTimeout_def c_def w1(1) Let_def)
  have late: "now w < ?t + min idle connectTimeout" "a < ?t + min idle connectTimeout"
    using assms(10) by (auto simp: connectTimeout_def min_def max_def)
  obtain p w2 where s: "Send ?ctx ?req (c, w1) = (Ok ?m, (c\<lparr>bufferPool := p\<rparr>, w2))"
    and w2: "now w2 = arrival ?t pre" "nc_in (conns w2 ?fd) = rest" "dials w2 = ds" "nconns w2 = Suc ?fd"
    using Send_answered [of c ?fd ?req w1 ?ctx pre rest ?m] assms(2,8-11) pool w1 dl late
    by (auto simp: c_def tcp_wf_def)
  have "parseHelloResponse ?m = Inr (success h)"
    using assms(4-6) by (simp add: ok_response_parsers wire_fields)
  then have hello: "hello ?ctx (c, w1) = SetMaxMessageSizeUnsafe (hi_maxMessageSize h) (c\<lparr>bufferPool := p\<rparr>, w2)"
    using s assms(3) by (simp add: hello_def io_simps ProtocolVersion_def c_def)
  obtain p' where "SetMaxMessageSizeUnsafe (hi_maxMessageSize h) (c\<lparr>bufferPool := p\<rparr>, w2) =
      (Ok (), (c\<lparr>maxMessageSize := hi_maxMessageSize h, bufferPool := p'\<rparr>, w2))"
    using assms(4) by (auto simp: SetMaxMessageSizeUnsafe_def newBytesPool_def)
  with hello d have "NewTCPClient addr 4096 idle opts w =
      (Ok (c\<lparr>maxMessageSize := hi_maxMessageSize h, bufferPool := p'\<rparr>), w2)"
    using assms(7) pool(1) by (simp add: NewTCPClient_def connect_def c_def Let_def)
  with w2 show ?thesis by auto
qed

definition example_hello :: helloInfo where
  "example_hello = \<lparr>hi_version = 1, hi_maxMessageSize = 4096, hi_authRequired = False, hi_role = ''master''\<rparr>"

definition example_answer :: rx_script where
  "example_answer = arriving 1 (frame (ok_response (hello_wire example_hello)))"

text \<open>A server that accepts one connection and refuses the next.\<close>

definition example_server :: world where
  "example_server = \<lparr>now = 0, conns = (\<lambda>_. example_conn [] []), nconns = 0,
     dials = [(0, Inr (example_answer, []))], dialed = []\<rparr>"


lemma example_answered:
  assumes "dials w = (0, Inr (example_answer, [])) # ds" "0 \<le> now w" "now w \<le> 1"
  shows "\<exists>c w'. NewTCPClient addr 4096 60 [] w = (Ok c, w') \<and> dials w' = ds \<and> nconns w' = Suc (nconns w) \<and> now w' \<le> 1"
proof -
  have len: "length (ok_response (hello_wire example_hello)) \<le> 4096" "length (helloRequest []) \<le> 4096"
    "multiDataDelimiter \<notin> set ''master''"
    by (simp add: ok_response_def hello_wire_def example_hello_def, code_simp)
      (code_simp, simp add: multiDataDelimiter_def)
  have "arrival (now w) example_answer \<le> 1"
    using assms(2,3) arrival_bounds [of "now w" example_answer 2] by (auto simp: example_answer_def)
  then show ?thesis
    using assms len NewTCPClient_answered [where w = w and a = 0 and pre = example_answer and rest = "[]" and
      ds = ds and h = example_hello and opts = "[]" and settings = zero_clientOptions and idle = 60 and addr = addr]
    by (auto simp: example_answer_def example_hello_def applyOptions_def zero_clientOptions_def connectTimeout_def)
qed

lemma example_refused:
  "dials w = [] \<Longrightarrow> \<exists>e w'. NewTCPClient addr 4096 60 [] w = (Err e, w') \<and> nconns w' = nconns w"
  by (simp add: NewTCPClient_def applyOptions_def zero_clientOptions_def newBytesPool_def
    connect_def dial_def wrapErr_def mapErr_def net_Dial_def Let_def)


subsection \<open>Subscriptions return and keep the client ready\<close>

text \<open>What an operation may do with its connection, as a relation between the states before and after.\<close>

definition evolves :: "tcp_state \<Rightarrow> tcp_state \<Rightarrow> bool" where
  "evolves s s' \<longleftrightarrow>
     usable (fst s') (snd s') \<and> nconns (snd s) \<le> nconns (snd s') \<and>
     (connection (fst s') = connection (fst s) \<or> nconns (snd s) \<le> the (connection (fst s')))"

lemma evolves_trans: "evolves s s1 \<Longrightarrow> evolves s1 s2 \<Longrightarrow> evolves s s2"
  by (auto simp: evolves_def)

lemma Stream_evolves:
  assumes "usable c w" and "TCPClient_Stream ctx request handle h (c, w) = ((r, h'), s')"
  shows "(\<exists>e. r = Err e) \<and> evolves (c, w) s'"
proof -
  obtain fd where fd: "tcp_wf c" "connection c = Some fd" "fd < nconns w" using assms(1) by (rule usableE)
  obtain c' w' where s': "s' = (c', w')" by (cases s')
  from Stream_result [OF fd(1,2) ctx_deadline_bounds assms(2) [unfolded s']] fd s' show ?thesis
    by (auto simp: evolves_def usable_def conn_effect_def)
qed

lemma Reconnect_evolves:
  assumes "usable c w" and "Reconnect (c, w) = (r, s')"
  shows "returns r \<and> evolves (c, w) s'"
proof -
  obtain fd where fd: "tcp_wf c" "connection c = Some fd" "fd < nconns w" using assms(1) by (rule usableE)
  obtain c' w' where s': "s' = (c', w')" by (cases s')
  note rc = assms(2) [unfolded s']
  from Reconnect_result(3) [OF fd rc] usable_Reconnect [OF assms(1) rc] Reconnect_fresh [OF fd rc] s' fd show ?thesis
    by (auto simp: evolves_def)
qed

lemma streamReconnect_evolves:
  "usable (fst s) (snd s) \<Longrightarrow> streamReconnect ctx n e s = (r, s') \<Longrightarrow> returns r \<and> evolves s s'"
proof (induction ctx n e s arbitrary: r s' rule: streamReconnect.induct)
  case (1 ctx e s)
  then show ?case by (auto simp: evolves_def split: option.splits)
next
  case (2 ctx left e s)
  show ?case
  proof (cases "ctx_Err ctx (now (snd s))")
    case None
    obtain q s1 where q: "Reconnect s = (q, s1)" by (metis surj_pair)
    have rc: "returns q" "evolves s s1"
      using Reconnect_evolves [of "fst s" "snd s" q s1] "2.prems"(1) q by auto
    show ?thesis
    proof (cases q)
      case (Err err)
      with "2.prems"(2) None q have "streamReconnect ctx left (Some err) s1 = (r, s')" by simp
      from "2.IH" [OF None q [symmetric] Err _ this] rc(2) show ?thesis
        using evolves_trans by (auto simp: evolves_def)
    qed (use "2.prems"(2) None q rc in auto)
  qed (use "2.prems" in \<open>auto simp: evolves_def\<close>)
qed

lemma streamRetry_evolves:
  "usable (fst s) (snd s) \<Longrightarrow> streamRetry ctx command onMessage h s = ((r, h'), s') \<Longrightarrow>
     (\<exists>e. r = Err e) \<and> evolves s s'"
proof (induction ctx command onMessage h s arbitrary: r h' s' rule: streamRetry.induct)
  case (1 ctx command onMessage h s)
  obtain q h1 s1 where q: "TCPClient_Stream ctx command onMessage h s = ((q, h1), s1)" by (metis surj_pair)
  obtain e where e: "q = Err e" and ev: "evolves s s1"
    using Stream_evolves [of "fst s" "snd s" ctx command onMessage h q h1 s1] "1.prems"(1) q by auto
  then have u1: "usable (fst s1) (snd s1)" by (simp add: evolves_def)
  obtain q2 s2 where q2: "streamReconnect ctx maxReconnectAttempts None s1 = (q2, s2)" by (metis surj_pair)
  note rc = streamReconnect_evolves [OF u1 q2]
  note loop = "1.prems"(2) [unfolded streamRetry.simps [of ctx command onMessage h s]]
  show ?case
  proof (cases "ctx_Err ctx (now (snd s1)) = None \<and> errors_Is e ErrConnClosed \<and> q2 = Ok ()")
    case True
    then have "streamRetry ctx command onMessage h1 s2 = ((r, h'), s')" using loop q e q2 by simp
    then have "(\<exists>e. r = Err e) \<and> evolves s2 s'"
      by (rule "1.IH" [rotated -1])
        (use q [symmetric] e q2 [symmetric] True rc in \<open>auto simp: evolves_def\<close>)
    with ev rc evolves_trans show ?thesis by blast
  next
    case False
    with loop q e q2 ev rc show ?thesis
      by (cases q2) (auto split: option.splits if_splits intro: evolves_trans)
  qed
qed

lemma streamRetry_uses_connection: "uses_connection (streamRetry ctx command onMessage h)"
  unfolding uses_connection_def
  using streamRetry_evolves [where s = "(c, w)" for c w] by (fastforce simp: evolves_def)

lemma subscription_ok:
  assumes "client_inv s"
  shows "(\<exists>e. fst (fst (withConnectionH (streamRetry ctx command onMessage h) h s)) = Err e) \<and>
    client_inv (snd (withConnectionH (streamRetry ctx command onMessage h) h s))"
proof -
  from withConnectionH_result [where m = "streamRetry ctx command onMessage h" and h = h, OF assms streamRetry_uses_connection]
  show ?thesis
  proof (elim exE conjE disjE)
    fix s' c w1 r h' c' w2
    assume "usable c w1" "streamRetry ctx command onMessage h (c, w1) = ((r, h'), c', w2)" "client_inv s'"
      "withConnectionH (streamRetry ctx command onMessage h) h s = ((r, h'), s')"
    with streamRetry_evolves [of "(c, w1)" ctx command onMessage h r h' "(c', w2)"] show ?thesis by auto
  qed auto
qed

lemma subscriptions_result:
  assumes "client_inv s"
  shows "(\<exists>e. fst (fst (Client_Stream ctx handle h s)) = Err e) \<and> client_inv (snd (Client_Stream ctx handle h s)) \<and>
    (\<exists>e. fst (fst (Client_PStream ctx prefix handle h s)) = Err e) \<and> client_inv (snd (Client_PStream ctx prefix handle h s)) \<and>
    (\<exists>e. fst (fst (Client_QStream ctx qhandle h s)) = Err e) \<and> client_inv (snd (Client_QStream ctx qhandle h s)) \<and>
    (\<exists>e. fst (fst (Client_QPStream ctx prefix qhandle h s)) = Err e) \<and> client_inv (snd (Client_QPStream ctx prefix qhandle h s))"
proof -
  obtain cl bufs w where s: "s = (cl, bufs, w)" by (cases s)
  have sub: "returns (fst (fst (stream ctx cmd handle h t))) \<and> client_inv (snd (stream ctx cmd handle h t))"
    "\<exists>e. fst (fst (stream ctx cmd handle h t)) = Err e"
    "returns (fst (fst (qstream ctx cmd qhandle h t))) \<and> client_inv (snd (qstream ctx cmd qhandle h t))"
    "\<exists>e. fst (fst (qstream ctx cmd qhandle h t)) = Err e" if "client_inv t" for cmd t
    using subscription_ok [OF that] unfolding stream_def qstream_def by (metis returns.simps(2))+
  note p = withCommandH_result [where m = "\<lambda>cmd. stream ctx cmd handle h" and n = 0, unfolded client_from_0,
    OF assms [unfolded s] sub(1)]
  note q = withCommandH_result [where m = "\<lambda>cmd. qstream ctx cmd qhandle h" and n = 0, unfolded client_from_0,
    OF assms [unfolded s] sub(3)]
  have "\<exists>e. fst (fst (Client_PStream ctx prefix handle h s)) = Err e" "client_inv (snd (Client_PStream ctx prefix handle h s))"
    using p [of "\<lambda>buf. writePrefixCommand buf CommandPStream prefix"] sub(2) unfolding Client_PStream_def s by metis+
  moreover have "\<exists>e. fst (fst (Client_QPStream ctx prefix qhandle h s)) = Err e" "client_inv (snd (Client_QPStream ctx prefix qhandle h s))"
    using q [of "\<lambda>buf. writePrefixCommand buf CommandQPStream prefix"] sub(4) unfolding Client_QPStream_def s by metis+
  ultimately show ?thesis
    using sub [OF assms] unfolding Client_Stream_def Client_QStream_def by blast
qed

text \<open>C27: A subscription, to limit events or quota events, with or without a prefix, returns only with an
  error, after any number of lost and renewed connections, for every handler and every network whose
  behaviour is finite; the client is then ready for the next operation.\<close>

theorem subscriptions_end_with_an_error:
  assumes "client_inv s"
  shows "(\<exists>e. fst (fst (Client_Stream ctx handle h s)) = Err e) \<and> client_inv (snd (Client_Stream ctx handle h s)) \<and>
    (\<exists>e. fst (fst (Client_PStream ctx prefix handle h s)) = Err e) \<and> client_inv (snd (Client_PStream ctx prefix handle h s)) \<and>
    (\<exists>e. fst (fst (Client_QStream ctx qhandle h s)) = Err e) \<and> client_inv (snd (Client_QStream ctx qhandle h s)) \<and>
    (\<exists>e. fst (fst (Client_QPStream ctx prefix qhandle h s)) = Err e) \<and> client_inv (snd (Client_QPStream ctx prefix qhandle h s))"
  by (rule subscriptions_result [OF assms])

lemma example_client_inv:
  "client_inv (example_cl [Some (example_client 64)] (Suc n), [], example_world c)"
  using example_pool_inv(1) [of n c] by (auto simp: client_inv_def example_cl_def BytesBufferPool_clean_def)

theorem subscriptions_end_with_an_error_witness:
  "\<exists>e. fst (fst (Client_Stream ctx_Background (\<lambda>_ n. (None, Suc n)) 0
     (example_cl [Some (example_client 64)] 1, [], example_world (example_conn [] [])))) = Err e"
  using subscriptions_end_with_an_error [OF example_client_inv [of 0 "example_conn [] []"],
    of ctx_Background "\<lambda>_ n. (None, Suc n)" 0] by simp

end
