(* ===== verification/Inspect.thy ===== *)
theory Inspect
  imports Client
begin

text \<open>
  Server reports (\<^verbatim>\<open>inspect.go\<close>): the command, the reply in chunks and its interpretation. The reply is
  decoded by \<^verbatim>\<open>encoding/json\<close>, which is not part of the program: the decoder is the parameter
  \<open>unmarshal\<close> of the definitions. Floating-point fields are kept as their 64-bit patterns, a missing
  pointer is \<open>None\<close>, a nil slice the empty list.
\<close>

type_synonym float64 = "64 word"
type_synonym InspectSection = string

subsection \<open>Sections\<close>

definition InspectSectionSummary :: InspectSection where
  "InspectSectionSummary = ''''"

definition InspectSectionAll :: InspectSection where
  "InspectSectionAll = ''ALL''"

definition InspectSectionWAL :: InspectSection where
  "InspectSectionWAL = ''WAL''"

definition InspectSectionDump :: InspectSection where
  "InspectSectionDump = ''DUMP''"

definition InspectSectionRepl :: InspectSection where
  "InspectSectionRepl = ''REPL''"

definition InspectSectionEngine :: InspectSection where
  "InspectSectionEngine = ''ENGINE''"

definition InspectSectionStreams :: InspectSection where
  "InspectSectionStreams = ''STREAMS''"

subsection \<open>Reports\<close>

datatype json =
    JNull
  | JBool bool
  | JNumber float64
  | JString string
  | JArray "json list"
  | JObject "(string \<times> json) list"

record InstanceInfo =
  in_Version :: string
  in_Commit :: string
  in_BuildDate :: string
  in_GoVersion :: string
  in_Platform :: string
  in_UptimeSec :: float64
  in_PID :: int
  in_Role :: string
  in_ReplicaID :: "string option"
  in_ListenAddr :: string
  in_Connections :: int

record PersistenceInfo =
  ps_Mode :: string
  ps_SyncCommit :: "string option"

record WALInfo =
  wal_Enabled :: bool
  wal_SyncCommit :: "string option"
  wal_DataDirectory :: "string option"
  wal_QueueDepth :: "int option"
  wal_QueueCapacity :: "int option"
  wal_LSNAssigned :: uint64
  wal_LSNFlushed :: "uint64 option"
  wal_SegmentPath :: "string option"
  wal_SegmentSizeBytes :: "int option"
  wal_LastFlushAt :: "int option"
  wal_LastFlushDurationMs :: "float64 option"
  wal_FlushAvgDurationMs :: "float64 option"
  wal_FlushTotal :: "float64 option"

record DumpInfo =
  dmp_Enabled :: bool
  dmp_Directory :: "string option"
  dmp_IntervalSec :: "float64 option"
  dmp_LastDumpAt :: "int option"
  dmp_LastDumpDurationMs :: "float64 option"
  dmp_LastDumpError :: "string option"
  dmp_LastDumpTx :: "uint64 option"
  dmp_CurrentDumpPath :: "string option"
  dmp_CurrentDumpSizeBytes :: "int option"
  dmp_NextDumpAt :: "int option"

record ReplicaInfo =
  ra_ReplicaID :: string
  ra_LastSegmentName :: string
  ra_LastAppliedLSN :: uint64
  ra_LagLSN :: uint64
  ra_LagSec :: float64
  ra_Stale :: bool
  ra_UpdatedAt :: int

record SlaveInfo =
  sl_MasterAddress :: string
  sl_Connected :: bool
  sl_LastSegmentName :: string
  sl_LastAppliedLSN :: uint64
  sl_ConsecutiveErrors :: int
  sl_ReconnectTotal :: uint64
  sl_LastReconnectAt :: "int option"
  sl_UpdatedAt :: int

record ReplInfo =
  rp_Role :: string
  rp_KnownReplicas :: int
  rp_Replicas :: "ReplicaInfo list"
  rp_Slave :: "SlaveInfo option"
  rp_Truncated :: bool

record PartitionStat =
  pt_Index :: int
  pt_Counters :: int
  pt_SlidingWindows :: int
  pt_TokenBuckets :: int
  pt_Quotas :: int
  pt_QuotaAllocations :: int

record EngineInfo =
  en_Partitions :: int
  en_Counters :: int
  en_SlidingWindows :: int
  en_TokenBuckets :: int
  en_Quotas :: int
  en_QuotaAllocations :: int
  en_KeyIndexEnabled :: bool
  en_PerPartition :: "PartitionStat list"

record SubscriberInfo =
  sb_Prefix :: "string option"
  sb_QueueLen :: int
  sb_QueueCap :: int
  sb_Dropped :: uint64

record StreamsInfo =
  st_LimitSubscribers :: "SubscriberInfo list"
  st_QuotaSubscribers :: "SubscriberInfo list"
  st_LimitEventsDroppedTotal :: uint64
  st_QuotaEventsDroppedTotal :: uint64

record InspectWarning =
  iw_Code :: string
  iw_Severity :: string
  iw_Message :: string
  iw_Details :: "(string \<times> json) list"

record InspectReport =
  ir_Section :: InspectSection
  ir_TS :: int
  ir_Instance :: "InstanceInfo option"
  ir_Persistence :: "PersistenceInfo option"
  ir_WAL :: "WALInfo option"
  ir_Dump :: "DumpInfo option"
  ir_Repl :: "ReplInfo option"
  ir_Engine :: "EngineInfo option"
  ir_Streams :: "StreamsInfo option"
  ir_Warnings :: "InspectWarning list"

definition zero_InspectReport :: InspectReport where
  "zero_InspectReport = \<lparr>ir_Section = InspectSectionSummary, ir_TS = 0, ir_Instance = None, ir_Persistence = None,
     ir_WAL = None, ir_Dump = None, ir_Repl = None, ir_Engine = None, ir_Streams = None, ir_Warnings = []\<rparr>"

subsection \<open>The reply\<close>

definition parseInspectResponse ::
  "(bytes \<Rightarrow> go_error + InspectReport) \<Rightarrow> bytes \<Rightarrow> go_error + InspectReport parsed"
where
  "parseInspectResponse unmarshal resp =
     (let idx = IndexByte resp respDelimiter
      in if idx = -1 then corrupted
         else let status = slice_to resp idx; data = slice_from resp (idx + 1)
              in if status = frameStatusOK
                 then (case unmarshal data of
                         Inl err \<Rightarrow> Inl (Errorf ''%w: %w'' [W (Sentinel ErrCorruptedResponse), W err])
                       | Inr report \<Rightarrow> Inr (success report))
                 else if status = frameStatusError then Inr (failure zero_InspectReport (parseError data))
                 else unknown_status)"

definition Client_Inspect ::
  "(bytes \<Rightarrow> go_error + InspectReport) \<Rightarrow> ctx \<Rightarrow> InspectSection \<Rightarrow> (client_state, InspectReport) io"
where
  "Client_Inspect unmarshal ctx section =
     withCommand (\<lambda>buf. writeInspectCommand buf section) (\<lambda>command.
       withConnection (bindR (wrapErr ''send: %w'' (sendChunkedWithReconnect ctx command))
         (finish (parseInspectResponse unmarshal) id zero_InspectReport)))"

subsection \<open>Properties\<close>

definition decoded :: "(bytes \<Rightarrow> go_error + InspectReport) \<Rightarrow> bytes \<Rightarrow> go_error + InspectReport" where
  "decoded unmarshal data =
     (case unmarshal data of
        Inl err \<Rightarrow> Inl (Errorf ''%w: %w'' [W (Sentinel ErrCorruptedResponse), W err])
      | Inr report \<Rightarrow> Inr report)"

interpretation inspectResp: response_parser "parseInspectResponse unmarshal" "decoded unmarshal" zero_InspectReport
  for unmarshal
  by unfold_locales (auto simp: parseInspectResponse_def decoded_def Let_def split: sum.splits)

lemma Inspect_ok: "preserves (client_from n) (Client_Inspect unmarshal ctx sect)"
  unfolding Client_Inspect_def
  by (intro withCommand_ok withConnection_ok uses_connection_request sendChunkedWithReconnect_contract)


lemma withConnection_eval:
  assumes "single_connection c (client_pool cl)"
    and "m (c, w) = (r, (c', w'))" "returns r"
  shows "withConnection m (cl, bufs, w) =
    (r, (cl\<lparr>client_pool := (client_pool cl)\<lparr>cp_connections := [Some c'], cp_wg := 0\<rparr>\<rparr>, bufs, w'))"
  using assms
  by (cases r) (auto simp: single_connection_def withConnection_def withConnectionH_def GetConnection_def bindR_def
    wg_Add_def wg_Done_def Let_def releaseAfter_def ReleaseConnection_def)

text \<open>C29: End to end, a report that the server sends in any number of chunks is what the decoder makes of
  their data put together in order; when the decoder rejects it, the call fails with an error that is a
  corrupted response and wraps the decoder's error; an error the server reports, also after some chunks,
  is returned as that error.\<close>

theorem Inspect_decodes_the_whole_report:
  assumes "single_connection c (client_pool cl)" and "BytesBufferPool_clean bufs"
    and "tcp_wf c" "connection c = Some fd" "maxMessageSize c < 2 ^ 32"
    and "int (length (writeInspectCommand [] sect)) \<le> maxMessageSize c"
    and "\<not> nc_closed (conns w fd)" "nc_tx (conns w fd) = []" "now w < TCPClient_deadline c ctx (now w)"
    and "st = frameStatusOK \<or> st = frameStatusError"
    and "list_all (\<lambda>f. int (length f) \<le> maxMessageSize c) (chunk_frames ds st x)"
    and "arrives (TCPClient_deadline c ctx (now w)) (nc_in (conns w fd)) (chunk_frames ds st x) rest"
  shows "fst (Client_Inspect unmarshal ctx sect (cl, bufs, w)) =
    (if st = frameStatusOK then
       (case unmarshal (concat ds @ x) of
          Inr report \<Rightarrow> Ok report
        | Inl err \<Rightarrow> Err (Errorf ''parse response: %w''
            [W (Errorf ''%w: %w'' [W (Sentinel ErrCorruptedResponse), W err])]))
     else Err (parseError x))"
proof -
  let ?cmd = "writeInspectCommand [] sect"
  obtain c' w' where "SendChunked ctx ?cmd (c, w) = (Ok (reassembled ds st x), (c', w'))"
    using SendChunked_chunks [of c fd ?cmd w ctx st ds x rest] assms(3-12) by (metis surj_pair)
  then have send: "sendChunkedWithReconnect ctx ?cmd (c, w) = (Ok (reassembled ds st x), (c', w'))"
    by (simp add: sendChunkedWithReconnect_def)
  let ?f = "finish (parseInspectResponse unmarshal) id zero_InspectReport (reassembled ds st x) (c', w')"
  obtain r where r: "?f = (r, (c', w'))" "returns r"
    using finish_pure [of "parseInspectResponse unmarshal" id zero_InspectReport "reassembled ds st x" "(c', w')"] by blast
  have "fst (Client_Inspect unmarshal ctx sect (cl, bufs, w)) = r"
    unfolding Client_Inspect_def
    by (subst withCommand_eval [OF assms(2)], rule withConnection_eval [OF assms(1)])
      (auto simp: io_simps send r)
  moreover have "r = fst ?f" using r by simp
  moreover have "reassembled ds st x = st @ respDelimiter # (if st = frameStatusOK then concat ds @ x else x)"
    by (simp add: reassembled_def joinStatusAndData_def)
  ultimately show ?thesis
    using assms(10) inspectResp.status_ok inspectResp.status_err
    by (auto simp: finish_def decoded_def split: sum.splits)
qed

text \<open>A decoder for the witness: it accepts one document.\<close>

definition example_unmarshal :: "bytes \<Rightarrow> go_error + InspectReport" where
  "example_unmarshal data = (if data = ''{}'' then Inr zero_InspectReport else Inl (PlainError ''syntax''))"

theorem Inspect_decodes_the_whole_report_witness:
  "fst (Client_Inspect example_unmarshal ctx_Background InspectSectionSummary (example_cl [Some (example_client 64)] 1, [],
     example_world (example_conn (arriving 7 (frame ''nxt|{'') @ arriving 9 (frame ''ok|}'') @ []) []))) = Ok zero_InspectReport"
proof -
  let ?ins = "arriving 7 (frame ''nxt|{'') @ arriving 9 (frame ''ok|}'') @ []"
  have frames: "chunk_frames [''{''] frameStatusOK ''}'' = [''nxt|{'', ''ok|}'']"
    by (simp add: chunk_frames_def joinStatusAndData_def frameStatusNext_def frameStatusOK_def respDelimiter_def)
  have "arrives 60 ?ins [''nxt|{'', ''ok|}''] []"
    by (intro arrives.intros) simp_all
  moreover have "writeInspectCommand [] InspectSectionSummary = ''INSPECT''" by code_simp
  ultimately show ?thesis
    using Inspect_decodes_the_whole_report [where c = "example_client 64" and fd = 0 and ctx = ctx_Background and
      cl = "example_cl [Some (example_client 64)] 1" and bufs = "[]" and sect = InspectSectionSummary and
      st = frameStatusOK and ds = "[''{'']" and x = "''}''" and rest = "[]" and unmarshal = example_unmarshal and
      w = "example_world (example_conn ?ins [])"] example_single_connection [of "example_client 64"]
    by (simp add: frames example_unmarshal_def BytesBufferPool_clean_def)
qed

end
