(* ===== verification/Sharded_Client.thy ===== *)
theory Sharded_Client
  imports Inspect
begin

text \<open>
  The client for several servers (\<^verbatim>\<open>sharded_client.go\<close>): operations on a key go to the shard the caller's
  sharding function names, \<^verbatim>\<open>MDel\<close> groups its keys by shard, scans walk through the shards with a cursor
  that names shard and position, and administration addresses every shard. The sharding function and
  the order in which Go visits the entries of a map are parameters.
\<close>

record ShardedClient =
  shards :: "Client list"
  shardingFunc :: "string \<Rightarrow> int \<Rightarrow> int"

type_synonym sharded_state = "ShardedClient \<times> BytesBufferPool \<times> world"

definition shardedScanCursorSeparator :: char where
  "shardedScanCursorSeparator = CHR '':''"

text \<open>Running an operation of one shard; an index out of range panics.\<close>

definition onShard :: "nat \<Rightarrow> (client_state, 'a) io \<Rightarrow> (sharded_state, 'a) io" where
  "onShard i m = (\<lambda>(c, bufs, w).
     if length (shards c) \<le> i then (Panic ''index out of range'', (c, bufs, w))
     else case m (shards c ! i, bufs, w) of
            (r, (cl, bufs', w')) \<Rightarrow> (r, (c\<lparr>shards := (shards c)[i := cl]\<rparr>, bufs', w')))"

subsection \<open>Opening, closing, selecting shards\<close>

fun closeShards ::
  "Client list \<Rightarrow> BytesBufferPool \<times> world \<Rightarrow> (unit res \<times> Client list) \<times> BytesBufferPool \<times> world"
where
  "closeShards [] s = ((Ok (), []), s)"
| "closeShards (cl # cls) (bufs, w) =
     (case Client_Close (cl, bufs, w) of
        (Ok _, (cl', s')) \<Rightarrow> (case closeShards cls s' of ((r, cls'), s'') \<Rightarrow> ((r, cl' # cls'), s''))
      | (r, (cl', s')) \<Rightarrow> ((r, cl' # cls), s'))"

fun newShards ::
  "string list \<Rightarrow> int \<Rightarrow> int \<Rightarrow> Option list \<Rightarrow> Client list \<Rightarrow> (BytesBufferPool \<times> world, Client list) io"
where
  "newShards [] idle poolSize opts cls s = (Ok cls, s)"
| "newShards (addr # addrs) idle poolSize opts cls (bufs, w) =
     (case New addr idle poolSize opts w of
        (Ok cl, w') \<Rightarrow> newShards addrs idle poolSize opts (cls @ [cl]) (bufs, w')
      | (Err err, w') \<Rightarrow>
          bindR (\<lambda>s. case closeShards cls s of ((r, cls'), s') \<Rightarrow> (r, s')) (\<lambda>_. throw (Errorf ''create shard %q: %w'' [Q addr, W err])) (bufs, w')
      | (Panic p, w') \<Rightarrow> (Panic p, (bufs, w'))
      | (Blocked, w') \<Rightarrow> (Blocked, (bufs, w')))"

definition NewSharded ::
  "string list \<Rightarrow> int \<Rightarrow> int \<Rightarrow> (string \<Rightarrow> int \<Rightarrow> int) option \<Rightarrow> Option list \<Rightarrow>
     (BytesBufferPool \<times> world, ShardedClient) io"
where
  "NewSharded addrs idle poolSize sharding opts =
     (if addrs = [] then throw (Sentinel ErrNoShards)
      else case sharding of
             None \<Rightarrow> throw (Sentinel ErrNilShardingFunc)
           | Some f \<Rightarrow>
               bindR (newShards addrs idle poolSize opts []) (\<lambda>cls. ret \<lparr>shards = cls, shardingFunc = f\<rparr>))"

definition ShardedClient_Close :: "(sharded_state, unit) io" where
  "ShardedClient_Close = (\<lambda>(c, s).
     case closeShards (shards c) s of ((r, cls), s') \<Rightarrow> (r, (c\<lparr>shards := cls\<rparr>, s')))"

definition ShardCount :: "ShardedClient \<Rightarrow> int" where
  "ShardCount c = int (length (shards c))"

definition Shard :: "ShardedClient \<Rightarrow> int \<Rightarrow> go_error + Client" where
  "Shard c index =
     (if index < 0 \<or> int (length (shards c)) \<le> index
      then Inl (Errorf ''%w: %d'' [W (Sentinel ErrShardIndexOutOfRange), D index])
      else Inr (shards c ! nat index))"

definition shardIndexByKey :: "ShardedClient \<Rightarrow> string \<Rightarrow> go_error + nat" where
  "shardIndexByKey c key =
     (let index = shardingFunc c key (int (length (shards c)))
      in if index < 0 \<or> int (length (shards c)) \<le> index
         then Inl (Errorf ''%w: %d'' [W (Sentinel ErrShardIndexOutOfRange), D index])
         else Inr (nat index))"

text \<open>\<^verbatim>\<open>shard, err := c.shardByKey(key)\<close> and a call of the shard's operation.\<close>

definition onShardByKey :: "string \<Rightarrow> (client_state, 'a) io \<Rightarrow> (sharded_state, 'a) io" where
  "onShardByKey key m = (\<lambda>(c, s).
     case shardIndexByKey c key of
       Inl err \<Rightarrow> (Err err, (c, s))
     | Inr index \<Rightarrow> onShard index m (c, s))"

subsection \<open>Operations on one key\<close>

definition Sharded_Incr :: "ctx \<Rightarrow> CappingKey \<Rightarrow> (sharded_state, uint64) io" where
  "Sharded_Incr ctx key = onShardByKey (ck_Key key) (Client_Incr ctx key)"

definition Sharded_Get :: "ctx \<Rightarrow> CappingKey \<Rightarrow> (sharded_state, uint64) io" where
  "Sharded_Get ctx key = onShardByKey (ck_Key key) (Client_Get ctx key)"

definition Sharded_Watch :: "ctx \<Rightarrow> CappingKey \<Rightarrow> (sharded_state, uint64) io" where
  "Sharded_Watch ctx key = onShardByKey (ck_Key key) (Client_Watch ctx key)"

definition Sharded_Del :: "ctx \<Rightarrow> CappingKey \<Rightarrow> (sharded_state, bool) io" where
  "Sharded_Del ctx key = onShardByKey (ck_Key key) (Client_Del ctx key)"

definition Sharded_RLimitFixedWindow :: "ctx \<Rightarrow> LimitKey \<Rightarrow> uint32 \<Rightarrow> (sharded_state, RateLimitResult) io" where
  "Sharded_RLimitFixedWindow ctx key limit = onShardByKey (lk_Key key) (Client_RLimitFixedWindow ctx key limit)"

definition Sharded_RLimitSlidingWindow :: "ctx \<Rightarrow> LimitKey \<Rightarrow> uint32 \<Rightarrow> (sharded_state, RateLimitResult) io" where
  "Sharded_RLimitSlidingWindow ctx key limit = onShardByKey (lk_Key key) (Client_RLimitSlidingWindow ctx key limit)"

definition Sharded_RLimitTokenBucket ::
  "ctx \<Rightarrow> LimitKey \<Rightarrow> uint32 \<Rightarrow> uint32 \<Rightarrow> (sharded_state, RateLimitResult) io"
where
  "Sharded_RLimitTokenBucket ctx key capacity refillAmount =
     onShardByKey (lk_Key key) (Client_RLimitTokenBucket ctx key capacity refillAmount)"

definition Sharded_QuotaAcquire ::
  "ctx \<Rightarrow> string \<Rightarrow> uint32 \<Rightarrow> string \<Rightarrow> uint32 list \<Rightarrow> (sharded_state, QuotaAcquireResult) io"
where
  "Sharded_QuotaAcquire ctx name amount clientID ttl =
     onShardByKey name (Client_QuotaAcquire ctx name amount clientID ttl)"

definition Sharded_QuotaAcquireLease ::
  "ctx \<Rightarrow> string \<Rightarrow> uint32 \<Rightarrow> uint32 \<Rightarrow> string \<Rightarrow> uint32 list \<Rightarrow> (sharded_state, QuotaAcquireResult) io"
where
  "Sharded_QuotaAcquireLease ctx name limit amount clientID ttl =
     onShardByKey name (Client_QuotaAcquireLease ctx name limit amount clientID ttl)"

definition Sharded_QuotaAcquireN ::
  "ctx \<Rightarrow> string \<Rightarrow> string \<Rightarrow> uint32 list \<Rightarrow> (sharded_state, QuotaAcquireResult) io"
where
  "Sharded_QuotaAcquireN ctx name clientID ttl = onShardByKey name (Client_QuotaAcquireN ctx name clientID ttl)"

definition Sharded_QuotaSet :: "ctx \<Rightarrow> string \<Rightarrow> uint32 \<Rightarrow> (sharded_state, bool) io" where
  "Sharded_QuotaSet ctx name limit = onShardByKey name (Client_QuotaSet ctx name limit)"

definition Sharded_QuotaSetN :: "ctx \<Rightarrow> string \<Rightarrow> uint32 \<Rightarrow> uint32 \<Rightarrow> (sharded_state, bool) io" where
  "Sharded_QuotaSetN ctx name limit clients = onShardByKey name (Client_QuotaSetN ctx name limit clients)"

definition Sharded_QuotaRelease :: "ctx \<Rightarrow> string \<Rightarrow> string \<Rightarrow> (sharded_state, bool) io" where
  "Sharded_QuotaRelease ctx name clientID = onShardByKey name (Client_QuotaRelease ctx name clientID)"

definition Sharded_QuotaDelete :: "ctx \<Rightarrow> string \<Rightarrow> (sharded_state, bool) io" where
  "Sharded_QuotaDelete ctx name = onShardByKey name (Client_QuotaDelete ctx name)"

definition Sharded_QuotaInfo :: "ctx \<Rightarrow> string \<Rightarrow> (sharded_state, QuotaInfo) io" where
  "Sharded_QuotaInfo ctx name = onShardByKey name (Client_QuotaInfo ctx name)"

subsection \<open>Deleting many keys\<close>

text \<open>The keys of each shard with their positions in the argument, in the argument's order.\<close>

fun groupKeys ::
  "ShardedClient \<Rightarrow> nat \<Rightarrow> CappingKey list \<Rightarrow> (nat \<Rightarrow> (CappingKey \<times> nat) list) \<Rightarrow>
     go_error + (nat \<Rightarrow> (CappingKey \<times> nat) list)"
where
  "groupKeys c i [] grouped = Inr grouped"
| "groupKeys c i (key # ks) grouped =
     (case shardIndexByKey c (ck_Key key) of
        Inl err \<Rightarrow> Inl err
      | Inr shardIndex \<Rightarrow>
          groupKeys c (i + 1) ks (grouped(shardIndex := grouped shardIndex @ [(key, i)])))"

text \<open>\<^verbatim>\<open>results[indexedKeys[i].index] = shardResult\<close> for the results of one shard.\<close>

fun storeResults :: "bool list \<Rightarrow> (CappingKey \<times> nat) list \<Rightarrow> bool list \<Rightarrow> bool list" where
  "storeResults results ((key, i) # indexedKeys) (r # rs) = storeResults (results[i := r]) indexedKeys rs"
| "storeResults results _ _ = results"

fun deleteGroups ::
  "ctx \<Rightarrow> (nat \<Rightarrow> (CappingKey \<times> nat) list) \<Rightarrow> nat list \<Rightarrow> bool list \<Rightarrow> (sharded_state, bool list) io"
where
  "deleteGroups ctx grouped [] results s = (Ok results, s)"
| "deleteGroups ctx grouped (shardIndex # order) results s =
     bindR (onShard shardIndex (Client_MDel ctx (map fst (grouped shardIndex)))) (\<lambda>shardResults.
       if length shardResults \<noteq> length (grouped shardIndex) then throw (Sentinel ErrCorruptedResponse)
       else deleteGroups ctx grouped order (storeResults results (grouped shardIndex) shardResults)) s"

text \<open>
  \<open>order\<close> is the order in which the iteration over the map of groups visits the shards that have keys;
  it lists each of them once.
\<close>

definition Sharded_MDel :: "nat list \<Rightarrow> ctx \<Rightarrow> CappingKey list \<Rightarrow> (sharded_state, bool list) io" where
  "Sharded_MDel order ctx ks = (\<lambda>(c, s).
     case groupKeys c 0 ks (\<lambda>_. []) of
       Inl err \<Rightarrow> (Err err, (c, s))
     | Inr grouped \<Rightarrow> deleteGroups ctx grouped order (replicate (length ks) False) (c, s))"

subsection \<open>Scans\<close>

definition parseScanCursor :: "ShardedClient \<Rightarrow> string \<Rightarrow> go_error + nat \<times> string" where
  "parseScanCursor c cursor =
     (if cursor = '''' \<or> cursor = ScanCursorInitial then Inr (0, ScanCursorInitial)
      else let parts = SplitN2 cursor shardedScanCursorSeparator
           in if length parts \<noteq> 2 \<or> parts ! 1 = '''' then corrupted
              else case Atoi (parts ! 0) of
                     None \<Rightarrow> corrupted
                   | Some shardIndex \<Rightarrow>
                       if shardIndex < 0 \<or> int (length (shards c)) \<le> shardIndex then corrupted
                       else Inr (nat shardIndex, parts ! 1))"

definition makeScanCursor :: "ShardedClient \<Rightarrow> nat \<Rightarrow> string \<Rightarrow> string" where
  "makeScanCursor c shardIndex shardCursor =
     (if length (shards c) \<le> shardIndex then ScanCursorInitial
      else Itoa (int shardIndex) @ [shardedScanCursorSeparator] @ shardCursor)"

text \<open>The loop over the shards, until the page is full or a shard has more.\<close>

function scanLoop ::
  "(string \<Rightarrow> uint32 \<Rightarrow> (client_state, ScanResult) io) \<Rightarrow> uint32 \<Rightarrow> nat \<Rightarrow> string \<Rightarrow> ScanKey list \<Rightarrow>
     (sharded_state, ScanResult) io"
where
  "scanLoop scanShard count shardIndex shardCursor ks (c, s) =
     (if shardIndex < length (shards c) \<and> length ks < unat count then
        (case onShard shardIndex (scanShard shardCursor (count - of_nat (length ks))) (c, s) of
           (Err e, s') \<Rightarrow> (Err e, s')
         | (Panic p, s') \<Rightarrow> (Panic p, s')
         | (Blocked, s') \<Rightarrow> (Blocked, s')
         | (Ok result, (c', s')) \<Rightarrow>
             (let ks' = ks @ sr_Keys result
              in if sr_Cursor result \<noteq> ScanCursorInitial
                 then (Ok \<lparr>sr_Cursor = makeScanCursor c' shardIndex (sr_Cursor result), sr_Keys = ks'\<rparr>, (c', s'))
                 else scanLoop scanShard count (shardIndex + 1) ScanCursorInitial ks' (c', s')))
      else (Ok \<lparr>sr_Cursor = makeScanCursor c shardIndex ScanCursorInitial, sr_Keys = ks\<rparr>, (c, s)))"
  by pat_completeness auto

lemma onShard_shards:
  assumes "onShard i m (c, s) = (r, (c', s'))"
  shows "length (shards c') = length (shards c)" and "shardingFunc c' = shardingFunc c"
    and "j \<noteq> i \<Longrightarrow> shards c' ! j = shards c ! j"
  using assms by (auto simp: onShard_def split: prod.splits if_splits)

termination scanLoop
  by (relation "measure (\<lambda>(scanShard, count, shardIndex, shardCursor, ks, c, s). length (shards c) - shardIndex)")
    (auto dest: onShard_shards(1) [OF sym] onShard_shards(1))

declare scanLoop.simps [simp del]

definition sharded_scan ::
  "string \<Rightarrow> uint32 \<Rightarrow> (string \<Rightarrow> uint32 \<Rightarrow> (client_state, ScanResult) io) \<Rightarrow> (sharded_state, ScanResult) io"
where
  "sharded_scan cursor count scanShard = (\<lambda>(c, s).
     if count = 0 then onShard 0 (scanShard ScanCursorInitial count) (c, s)
     else case parseScanCursor c cursor of
            Inl err \<Rightarrow> (Err err, (c, s))
          | Inr (shardIndex, shardCursor) \<Rightarrow> scanLoop scanShard count shardIndex shardCursor [] (c, s))"

definition Sharded_Scan :: "ctx \<Rightarrow> string \<Rightarrow> uint32 \<Rightarrow> (sharded_state, ScanResult) io" where
  "Sharded_Scan ctx cursor count = sharded_scan cursor count (Client_Scan ctx)"

definition Sharded_PScan :: "ctx \<Rightarrow> string \<Rightarrow> string \<Rightarrow> uint32 \<Rightarrow> (sharded_state, ScanResult) io" where
  "Sharded_PScan ctx prefix cursor count = sharded_scan cursor count (Client_PScan ctx prefix)"

subsection \<open>Operations on all shards\<close>

text \<open>The loops run over the shards of the client, from the first; \<open>n\<close> shards are left.\<close>

fun boolCommandFrom :: "(client_state, bool) io \<Rightarrow> nat \<Rightarrow> nat \<Rightarrow> bool \<Rightarrow> (sharded_state, bool) io" where
  "boolCommandFrom command i 0 result s = (Ok result, s)"
| "boolCommandFrom command i (Suc n) result s =
     bindR (onShard i command) (\<lambda>shardResult. boolCommandFrom command (i + 1) n (result \<and> shardResult)) s"

definition boolCommandOnAllShards :: "(client_state, bool) io \<Rightarrow> (sharded_state, bool) io" where
  "boolCommandOnAllShards command = (\<lambda>(c, s). boolCommandFrom command 0 (length (shards c)) True (c, s))"

definition Sharded_FlushDB :: "ctx \<Rightarrow> (sharded_state, bool) io" where
  "Sharded_FlushDB ctx = boolCommandOnAllShards (Client_FlushDB ctx)"

definition Sharded_Truncate :: "ctx \<Rightarrow> (sharded_state, bool) io" where
  "Sharded_Truncate ctx = boolCommandOnAllShards (Client_Truncate ctx)"

fun inspectFrom ::
  "(client_state, InspectReport) io \<Rightarrow> nat \<Rightarrow> nat \<Rightarrow> InspectReport list \<Rightarrow> (sharded_state, InspectReport list) io"
where
  "inspectFrom inspect i 0 reports s = (Ok reports, s)"
| "inspectFrom inspect i (Suc n) reports s =
     bindR (onShard i inspect) (\<lambda>report. inspectFrom inspect (i + 1) n (reports @ [report])) s"

definition Sharded_Inspect ::
  "(bytes \<Rightarrow> go_error + InspectReport) \<Rightarrow> ctx \<Rightarrow> InspectSection \<Rightarrow> (sharded_state, InspectReport list) io"
where
  "Sharded_Inspect unmarshal ctx sect = (\<lambda>(c, s).
     inspectFrom (Client_Inspect unmarshal ctx sect) 0 (length (shards c)) [] (c, s))"

subsection \<open>Invariant\<close>

text \<open>There is a shard, and every shard is ready for the next operation.\<close>

definition sharded_inv :: "sharded_state \<Rightarrow> bool" where
  "sharded_inv = (\<lambda>(c, bufs, w).
     shards c \<noteq> [] \<and> (\<forall>i < length (shards c). client_inv (shards c ! i, bufs, w)))"

lemma client_inv_mono:
  assumes "client_inv (cl, bufs, w)" and "nconns w \<le> nconns w'" and "BytesBufferPool_clean bufs'"
  shows "client_inv (cl, bufs', w')"
  using assms pool_inv_mono by (auto simp: client_inv_def)

text \<open>What a sharded client relies on in the operations of its shards.\<close>

locale shard_operation =
  fixes oper :: "(client_state, 'a) io"
  assumes oper_ok: "preserves (client_from n) oper"
begin

text \<open>On one shard, the operation leaves the other shards alone and ready.\<close>

lemma onShard_ok:
  assumes "sharded_inv (c, bufs, w)" and "i < length (shards c)" and "onShard i oper (c, bufs, w) = (r, (c', bufs', w'))"
  shows "returns r \<and> sharded_inv (c', bufs', w') \<and> length (shards c') = length (shards c) \<and>
    shardingFunc c' = shardingFunc c \<and> (\<forall>j. j \<noteq> i \<longrightarrow> shards c' ! j = shards c ! j)"
proof -
  obtain q cl b2 w2 where m: "oper (shards c ! i, bufs, w) = (q, (cl, b2, w2))" by (metis prod_cases4)
  have inv: "client_from (nconns w) (shards c ! i, bufs, w)"
    using assms(1,2) by (auto simp: sharded_inv_def client_from_def)
  have new: "returns q" "client_inv (cl, b2, w2)" "nconns w \<le> nconns w2"
    using preservesD [OF oper_ok inv] m by (auto simp: client_from_def)
  then have clean: "BytesBufferPool_clean b2" by (auto simp: client_inv_def)
  have eq: "r = q" "c' = c\<lparr>shards := (shards c)[i := cl]\<rparr>" "bufs' = b2" "w' = w2"
    using assms(2,3) m by (auto simp: onShard_def)
  have "client_inv (shards c' ! j, b2, w2)" if "j < length (shards c)" for j
  proof (cases "j = i")
    case False
    with that assms(1) have "client_inv (shards c ! j, bufs, w)" by (auto simp: sharded_inv_def)
    from client_inv_mono [OF this new(3) clean] False eq(2) show ?thesis by simp
  qed (use new(2) eq(2) assms(2) in simp)
  with eq new(1) assms(1) show ?thesis by (auto simp: sharded_inv_def)
qed

lemma onShardByKey_ok: "preserves sharded_inv (onShardByKey key oper)"
proof (rule preservesI)
  fix s assume s: "sharded_inv s"
  obtain c bufs w where c: "s = (c, bufs, w)" by (cases s)
  show "returns (fst (onShardByKey key oper s)) \<and> sharded_inv (snd (onShardByKey key oper s))"
  proof (cases "shardIndexByKey c key")
    case (Inl e)
    with s c show ?thesis by (simp add: onShardByKey_def)
  next
    case (Inr i)
    then have i: "i < length (shards c)"
      by (auto simp: shardIndexByKey_def Let_def nat_less_iff split: if_splits)
    obtain r c' bufs' w' where "onShard i oper (c, bufs, w) = (r, (c', bufs', w'))" by (metis prod_cases4)
    from onShard_ok [OF s [unfolded c] i this] this Inr c show ?thesis by (simp add: onShardByKey_def)
  qed
qed

end

interpretation command: shard_operation "withCommand wr (exchange parse f zero ctx)" for wr parse f zero ctx
  by unfold_locales (intro withCommand_ok exchange_ok)

interpretation plain: shard_operation "exchange parse f zero ctx cmd" for parse f zero ctx cmd
  by unfold_locales (rule exchange_ok)

interpretation inspect: shard_operation "Client_Inspect unmarshal ctx sect" for unmarshal ctx sect
  by unfold_locales (rule Inspect_ok)

lemmas sharded_defs =
  Sharded_Incr_def Sharded_Get_def Sharded_Watch_def Sharded_Del_def
  Sharded_RLimitFixedWindow_def Sharded_RLimitSlidingWindow_def Sharded_RLimitTokenBucket_def
  Sharded_QuotaAcquire_def Sharded_QuotaAcquireLease_def Sharded_QuotaAcquireN_def
  Sharded_QuotaSet_def Sharded_QuotaSetN_def Sharded_QuotaRelease_def Sharded_QuotaDelete_def
  Sharded_QuotaInfo_def

lemma keyed_operations_ok:
  "preserves sharded_inv (Sharded_Incr ctx key)"
  "preserves sharded_inv (Sharded_Get ctx key)"
  "preserves sharded_inv (Sharded_Watch ctx key)"
  "preserves sharded_inv (Sharded_Del ctx key)"
  "preserves sharded_inv (Sharded_RLimitFixedWindow ctx lkey n)"
  "preserves sharded_inv (Sharded_RLimitSlidingWindow ctx lkey n)"
  "preserves sharded_inv (Sharded_RLimitTokenBucket ctx lkey n k)"
  "preserves sharded_inv (Sharded_QuotaAcquire ctx name n cid ttl)"
  "preserves sharded_inv (Sharded_QuotaAcquireLease ctx name n k cid ttl)"
  "preserves sharded_inv (Sharded_QuotaAcquireN ctx name cid ttl)"
  "preserves sharded_inv (Sharded_QuotaSet ctx name n)"
  "preserves sharded_inv (Sharded_QuotaSetN ctx name n k)"
  "preserves sharded_inv (Sharded_QuotaRelease ctx name cid)"
  "preserves sharded_inv (Sharded_QuotaDelete ctx name)"
  "preserves sharded_inv (Sharded_QuotaInfo ctx name)"
  unfolding sharded_defs operation_defs by (rule command.onShardByKey_ok)+

subsection \<open>All shards\<close>

lemma boolCommandFrom_result:
  assumes "shard_operation command" and "sharded_inv (c, bufs, w)" and "i + n = length (shards c)"
    and "boolCommandFrom command i n b (c, bufs, w) = (r, s')"
  shows "returns r \<and> sharded_inv s' \<and>
    (r = Ok True \<longrightarrow> b \<and> (\<forall>j. i \<le> j \<and> j < length (shards c) \<longrightarrow>
      (\<exists>bufs0 w0 s1. command (shards c ! j, bufs0, w0) = (Ok True, s1))))"
  using assms(2-4)
proof (induction n arbitrary: i b c bufs w)
  case 0
  then show ?case by auto
next
  case (Suc n)
  obtain q c1 b1 w1 where q: "onShard i command (c, bufs, w) = (q, (c1, b1, w1))" by (metis prod_cases4)
  have i: "i < length (shards c)" using Suc.prems(2) by simp
  note shard = shard_operation.onShard_ok [OF assms(1) Suc.prems(1) i q]
  have run: "\<exists>s1. command (shards c ! i, bufs, w) = (q, s1)"
    using q i by (auto simp: onShard_def split: prod.splits)
  show ?case
  proof (cases q)
    case (Ok x)
    then have rest: "boolCommandFrom command (Suc i) n (b \<and> x) (c1, b1, w1) = (r, s')"
      using Suc.prems(3) q by (simp add: io_simps)
    have "sharded_inv (c1, b1, w1)" "Suc i + n = length (shards c1)" using shard Suc.prems(2) by auto
    note IH = Suc.IH [OF this rest]
    have "\<exists>bufs0 w0 s1. command (shards c ! j, bufs0, w0) = (Ok True, s1)"
      if "r = Ok True" "i \<le> j" "j < length (shards c)" for j
    proof (cases "j = i")
      case True
      have "q = Ok True" using IH that(1) Ok by simp
      with True run show ?thesis by blast
    next
      case False
      then have "Suc i \<le> j" "shards c1 ! j = shards c ! j" "j < length (shards c1)" using shard that by auto
      with IH that(1) show ?thesis by metis
    qed
    with IH show ?thesis by auto
  qed (use Suc.prems(3) q shard in \<open>auto simp: io_simps\<close>)
qed

lemma inspectFrom_result:
  assumes "shard_operation oper" and "sharded_inv (c, bufs, w)" and "i + n = length (shards c)"
    and "inspectFrom oper i n reports (c, bufs, w) = (r, s')"
  shows "returns r \<and> sharded_inv s' \<and> (\<forall>rs. r = Ok rs \<longrightarrow> length rs = length reports + n)"
  using assms(2-4)
proof (induction n arbitrary: i reports c bufs w)
  case 0
  then show ?case by auto
next
  case (Suc n)
  obtain q c1 b1 w1 where q: "onShard i oper (c, bufs, w) = (q, (c1, b1, w1))" by (metis prod_cases4)
  have i: "i < length (shards c)" using Suc.prems(2) by simp
  note shard = shard_operation.onShard_ok [OF assms(1) Suc.prems(1) i q]
  show ?case
  proof (cases q)
    case (Ok x)
    then have rest: "inspectFrom oper (Suc i) n (reports @ [x]) (c1, b1, w1) = (r, s')"
      using Suc.prems(3) q by (simp add: io_simps)
    have "sharded_inv (c1, b1, w1)" "Suc i + n = length (shards c1)" using shard Suc.prems(2) by auto
    from Suc.IH [OF this rest] show ?thesis by simp
  qed (use Suc.prems(3) q shard in \<open>auto simp: io_simps\<close>)
qed


definition example_sharded :: ShardedClient where
  "example_sharded = \<lparr>shards = [example_cl [Some (example_client 64)] 1, example_cl [Some (example_client 64)] 1],
     shardingFunc = (\<lambda>key n. int (length key) mod n)\<rparr>"

lemma example_sharded_inv: "sharded_inv (example_sharded, [], example_world c)"
  using example_client_inv [of 0] by (auto simp: sharded_inv_def example_sharded_def less_Suc_eq)


subsection \<open>Routing\<close>

text \<open>C30: The shard of a key is the one the caller's sharding function names, for the number of shards there
  are, and no operation on that key touches another shard; when the function names no shard, the operation
  fails with an index error and nothing at all happens, to the shards or on the network.\<close>

theorem keys_go_to_their_shard:
  assumes "onShardByKey key oper (c, bufs, w) = (r, (c', bufs', w'))"
  shows "let i = shardingFunc c key (ShardCount c) in
    if 0 \<le> i \<and> i < ShardCount c
    then fst (oper (shards c ! nat i, bufs, w)) = r \<and> (\<forall>j. int j \<noteq> i \<longrightarrow> shards c' ! j = shards c ! j) \<and>
      length (shards c') = length (shards c)
    else (\<exists>e. r = Err e \<and> errors_Is e ErrShardIndexOutOfRange) \<and> c' = c \<and> bufs' = bufs \<and> w' = w"
proof (cases "shardIndexByKey c key")
  case (Inl e)
  with assms show ?thesis
    by (auto simp: onShardByKey_def shardIndexByKey_def ShardCount_def Let_def split: if_splits)
next
  case (Inr i)
  then have i: "shardingFunc c key (ShardCount c) = int i" "i < length (shards c)"
    by (auto simp: shardIndexByKey_def ShardCount_def Let_def nat_less_iff split: if_splits)
  have "onShard i oper (c, bufs, w) = (r, (c', bufs', w'))" using assms Inr by (simp add: onShardByKey_def)
  then show ?thesis
    using i onShard_shards [of i oper c "(bufs, w)" r c' "(bufs', w')"]
    by (auto simp: ShardCount_def Let_def onShard_def split: prod.splits)
qed

theorem keys_go_to_their_shard_witness:
  "\<exists>r c' bufs' w'. onShardByKey ''key'' (Client_Get ctx_Background \<lparr>ck_Key = ''key'', ck_Capping = 60\<rparr>)
      (example_sharded, [], example_world (example_conn [] [])) = (r, (c', bufs', w')) \<and>
    shards c' ! 0 = shards example_sharded ! 0"
proof -
  let ?op = "onShardByKey ''key'' (Client_Get ctx_Background \<lparr>ck_Key = ''key'', ck_Capping = 60\<rparr>)"
  obtain r c' bufs' w' where s: "?op (example_sharded, [], example_world (example_conn [] [])) = (r, (c', bufs', w'))"
    by (metis prod_cases4)
  from keys_go_to_their_shard [OF s] s show ?thesis
    by (auto simp: example_sharded_def ShardCount_def Let_def)
qed

subsection \<open>Cursors\<close>

lemma dec_digits_no_separator: "shardedScanCursorSeparator \<notin> set (dec_digits n)"
  by (rule delim_not_in_dec_digits) (simp add: shardedScanCursorSeparator_def is_digit_def)

lemma parse_made_cursor:
  assumes "length (shards c) < 2 ^ 63" and "i < length (shards c)"
  shows "parseScanCursor c (makeScanCursor c i cur) = (if cur = '''' then corrupted else Inr (i, cur))"
proof -
  let ?cursor = "dec_digits i @ shardedScanCursorSeparator # cur"
  have made: "makeScanCursor c i cur = ?cursor"
    using assms(2) by (simp add: makeScanCursor_def Itoa_def)
  have split: "SplitN2 ?cursor shardedScanCursorSeparator = [dec_digits i, cur]"
    using dec_digits_no_separator by simp
  have proper: "?cursor \<noteq> ScanCursorInitial"
  proof
    assume "?cursor = ScanCursorInitial"
    then have "shardedScanCursorSeparator \<in> set ScanCursorInitial" by (metis in_set_conv_decomp)
    then show False by (simp add: ScanCursorInitial_def shardedScanCursorSeparator_def)
  qed
  have "Atoi (dec_digits i) = Some (int i)"
    using Atoi_Itoa [of "int i"] assms by (simp add: Itoa_def)
  with made split proper assms(2) show ?thesis by (auto simp: parseScanCursor_def Let_def)
qed

text \<open>C32: The cursor of a sharded scan names its position: the cursor made for a shard and a non-empty
  cursor of that shard, whatever bytes it has, is parsed back to exactly these, and past the last shard the
  initial cursor is returned, with which a scan starts over. An empty cursor of a shard would give a
  cursor that is rejected.\<close>

theorem scan_cursor_roundtrip:
  assumes "length (shards c) < 2 ^ 63"
  shows "(i < length (shards c) \<and> cur \<noteq> '''' \<longrightarrow> parseScanCursor c (makeScanCursor c i cur) = Inr (i, cur)) \<and>
    (length (shards c) \<le> i \<longrightarrow> makeScanCursor c i cur = ScanCursorInitial) \<and>
    parseScanCursor c ScanCursorInitial = Inr (0, ScanCursorInitial) \<and>
    (i < length (shards c) \<longrightarrow> parseScanCursor c (makeScanCursor c i '''') = corrupted)"
  using parse_made_cursor [OF assms] by (auto simp: parseScanCursor_def makeScanCursor_def)

theorem scan_cursor_roundtrip_witness:
  "parseScanCursor example_sharded (makeScanCursor example_sharded 1 ''a:7'') = Inr (1, ''a:7'')"
  using scan_cursor_roundtrip [of example_sharded 1 "''a:7''"] by (simp add: example_sharded_def)

end
