(* ===== verification/End_to_End.thy ===== *)
theory End_to_End
  imports Client
begin

text \<open>
  The layers put together: what a caller of the client gets for the bytes a server sends. On a
  responsive connection every operation puts exactly the frame of its request on the wire, consumes
  exactly the frame of the response and returns what the server wrote, be it a value or an error.
\<close>

subsection \<open>Operations on a responsive connection\<close>

text \<open>
  \<open>answers ctx oper request m r\<close>: on every responsive connection on which the response \<open>m\<close> comes next, the
  operation sends \<open>request\<close> and returns \<open>r\<close>, when the last byte of the response arrives; what follows the
  response is left for the next call, and the connection is back in the pool.
\<close>

definition answers :: "ctx \<Rightarrow> (client_state, 'r) io \<Rightarrow> bytes \<Rightarrow> bytes \<Rightarrow> 'r res \<Rightarrow> bool" where
  "answers ctx oper request m r \<longleftrightarrow>
     (\<forall>c cl bufs fd w pre rest.
        single_connection c (client_pool cl) \<and> BytesBufferPool_clean bufs \<and> responsive c fd ctx request w pre m rest \<longrightarrow>
        (\<exists>c' cl' bufs' w'. oper (cl, bufs, w) = (r, (cl', bufs', w')) \<and>
           nc_out (conns w' fd) = nc_out (conns w fd) @ frame request \<and> nc_in (conns w' fd) = rest \<and>
           now w' = arrival (now w) pre \<and> (\<forall>fd'. fd' \<noteq> fd \<longrightarrow> conns w' fd' = conns w fd') \<and>
           single_connection c' (client_pool cl') \<and> BytesBufferPool_clean bufs'))"

lemma answersD:
  assumes "answers ctx oper request m r"
    and "single_connection c (client_pool cl)" "BytesBufferPool_clean bufs" "responsive c fd ctx request w pre m rest"
  obtains c' cl' bufs' w' where "oper (cl, bufs, w) = (r, (cl', bufs', w'))"
    "nc_out (conns w' fd) = nc_out (conns w fd) @ frame request" "nc_in (conns w' fd) = rest"
    "now w' = arrival (now w) pre" "\<forall>fd'. fd' \<noteq> fd \<longrightarrow> conns w' fd' = conns w fd'"
    "single_connection c' (client_pool cl')" "BytesBufferPool_clean bufs'"
  using assms unfolding answers_def by blast

lemma answers_result:
  assumes "answers ctx oper request m r" and "single_connection c (client_pool cl)" "BytesBufferPool_clean bufs"
    and "responsive c fd ctx request w pre m rest"
  shows "fst (oper (cl, bufs, w)) = r"
  by (rule answersD [OF assms]) simp

lemma finish_result: "finish parse f zero m s = (fst (finish parse f zero m s'), s)"
  by (auto simp: finish_def split: sum.splits ResponseStatus.splits option.splits)

lemma exchange_answers: "answers ctx (exchange parse f zero ctx command) command m (fst (finish parse f zero m s))"
proof -
  have "\<exists>c' cl' bufs' w'. exchange parse f zero ctx command (cl, bufs, w) = (fst (finish parse f zero m s), (cl', bufs', w')) \<and>
      nc_out (conns w' fd) = nc_out (conns w fd) @ frame command \<and> nc_in (conns w' fd) = rest \<and>
      now w' = arrival (now w) pre \<and> (\<forall>fd'. fd' \<noteq> fd \<longrightarrow> conns w' fd' = conns w fd') \<and>
      single_connection c' (client_pool cl') \<and> BytesBufferPool_clean bufs'"
    if ok: "single_connection c (client_pool cl)" "BytesBufferPool_clean bufs" "responsive c fd ctx command w pre m rest"
    for c cl bufs fd w pre rest
  proof -
    from sendWithReconnect_answered [OF ok(3)] obtain c' w' where
      sent: "sendWithReconnect ctx command (c, w) = (Ok m, (c', w'))" and
      w': "nc_out (conns w' fd) = nc_out (conns w fd) @ frame command" "nc_in (conns w' fd) = rest"
        "now w' = arrival (now w) pre" "\<forall>fd'. fd' \<noteq> fd \<longrightarrow> conns w' fd' = conns w fd'" by auto
    let ?cl = "cl\<lparr>client_pool := (client_pool cl)\<lparr>cp_connections := [Some c'], cp_wg := 0\<rparr>\<rparr>"
    have "exchange parse f zero ctx command (cl, bufs, w) = (fst (finish parse f zero m (c', w')), (?cl, bufs, w'))"
      using ok(1) sent exchange_eval [where cs = "[]" and c = c and cl = cl and q = "Ok m"]
      by (auto simp: single_connection_def)
    moreover have "fst (finish parse f zero m (c', w')) = fst (finish parse f zero m s)"
      by (metis finish_result fst_conv)
    moreover have "single_connection c' (client_pool ?cl)" using ok(1) by (simp add: single_connection_def)
    ultimately show ?thesis using w' ok(2) by metis
  qed
  then show ?thesis unfolding answers_def by blast
qed

lemma withCommand_answers:
  assumes "answers ctx (m (wr [])) (wr []) resp r" and "returns r"
  shows "answers ctx (withCommand wr m) (wr []) resp r"
  unfolding answers_def
proof (intro allI impI, elim conjE)
  fix c fd pre rest and cl :: Client and bufs w
  assume ok: "single_connection c (client_pool cl)" "BytesBufferPool_clean bufs" "responsive c fd ctx (wr []) w pre resp rest"
  from answersD [OF assms(1) ok(1) commandBuffers.get_clean [OF ok(2)] ok(3)] obtain c' cl' bufs' w' where
    run: "m (wr []) (cl, snd (BytesBufferPool_Get bufs), w) = (r, (cl', bufs', w'))" and
    w': "nc_out (conns w' fd) = nc_out (conns w fd) @ frame (wr [])" "nc_in (conns w' fd) = rest"
      "now w' = arrival (now w) pre" "\<forall>fd'. fd' \<noteq> fd \<longrightarrow> conns w' fd' = conns w fd'"
      "single_connection c' (client_pool cl')" "BytesBufferPool_clean bufs'" by metis
  from withCommand_eval [of bufs m wr, OF ok(2) run assms(2)] w' commandBuffers.put_clean [OF w'(6)]
  show "\<exists>c' cl' bufs' w'. withCommand wr m (cl, bufs, w) = (r, (cl', bufs', w')) \<and>
      nc_out (conns w' fd) = nc_out (conns w fd) @ frame (wr []) \<and> nc_in (conns w' fd) = rest \<and>
      now w' = arrival (now w) pre \<and> (\<forall>fd'. fd' \<noteq> fd \<longrightarrow> conns w' fd' = conns w fd') \<and>
      single_connection c' (client_pool cl') \<and> BytesBufferPool_clean bufs'" by metis
qed

lemma command_answers:
  assumes "fst (finish parse f zero m (undefined :: tcp_state)) = r" and "returns r"
  shows "answers ctx (withCommand wr (exchange parse f zero ctx)) (wr []) m r"
  using withCommand_answers [of ctx "exchange parse f zero ctx" wr m r, OF _ assms(2)]
    exchange_answers [of ctx parse f zero "wr []" m undefined] assms(1) by simp

lemma plain_answers:
  assumes "fst (finish parse f zero m (undefined :: tcp_state)) = r"
  shows "answers ctx (exchange parse f zero ctx command) command m r"
  using exchange_answers assms by metis

lemma finish_success: "parse m = Inr (success v) \<Longrightarrow> fst (finish parse f zero m s) = Ok (f v)"
  by (simp add: finish_def)

lemma finish_failure: "parse m = Inr (failure x e) \<Longrightarrow> fst (finish parse f zero m s) = Err e"
  by (simp add: finish_def)

lemmas parsed_wire = ok_response_parsers wire_fields

text \<open>C3: End to end, every operation returns what the server answers: it sends exactly the frame of its
  request and returns the counter, flag, list, rate limit, quota or page that the \<^verbatim>\<open>ok\<close> response encodes, provided
  the names in it do not contain the field delimiter.\<close>

theorem operations_end_to_end:
  assumes "list_all (\<lambda>c. multiDataDelimiter \<notin> set (qc_ClientID c)) (qi_Clients info)"
    and "multiDataDelimiter \<notin> set (sr_Cursor page)"
    and "list_all (\<lambda>k. multiDataDelimiter \<notin> set (sk_Key k)) (sr_Keys page)" and "vs \<noteq> []"
  shows "answers ctx (Client_Incr ctx key) (write_request (RIncr key)) (ok_response [FormatUint v]) (Ok v) \<and>
    answers ctx (Client_Get ctx key) (write_request (RGet key)) (ok_response [FormatUint v]) (Ok v) \<and>
    answers ctx (Client_Watch ctx key) (write_request (RWatch key)) (ok_response [FormatUint v]) (Ok v) \<and>
    answers ctx (Client_Del ctx key) (write_request (RDel key)) (ok_response [FormatUint v]) (Ok (v = 1)) \<and>
    answers ctx (Client_MDel ctx ks) (write_request (RMDel ks)) (ok_response (map FormatUint vs)) (Ok (map (\<lambda>v. v = 1) vs)) \<and>
    answers ctx (Client_RLimitFixedWindow ctx lkey limit) (write_request (RFixedWindow lkey limit))
      (ok_response (rateLimit_wire rl)) (Ok rl) \<and>
    answers ctx (Client_RLimitSlidingWindow ctx lkey limit) (write_request (RSlidingWindow lkey limit))
      (ok_response (rateLimit_wire rl)) (Ok rl) \<and>
    answers ctx (Client_RLimitTokenBucket ctx lkey limit refill) (write_request (RTokenBucket lkey limit refill))
      (ok_response (rateLimit_wire rl)) (Ok rl) \<and>
    answers ctx (Client_QuotaAcquire ctx name amount cid (ttl_args ttl)) (write_request (RQuotaAcquire name amount cid ttl))
      (ok_response (quotaAcquire_wire acq)) (Ok acq) \<and>
    answers ctx (Client_QuotaAcquireLease ctx name limit amount cid (ttl_args ttl))
      (write_request (RQuotaAcquireLease name limit amount cid ttl)) (ok_response (quotaAcquire_wire acq)) (Ok acq) \<and>
    answers ctx (Client_QuotaAcquireN ctx name cid (ttl_args ttl)) (write_request (RQuotaAcquireN name cid ttl))
      (ok_response (quotaAcquire_wire acq)) (Ok acq) \<and>
    answers ctx (Client_QuotaSet ctx name limit) (write_request (RQuotaSet name limit)) (ok_response [FormatUint v]) (Ok (v = 1)) \<and>
    answers ctx (Client_QuotaSetN ctx name limit cnt) (write_request (RQuotaSetN name limit cnt))
      (ok_response [FormatUint v]) (Ok (v = 1)) \<and>
    answers ctx (Client_QuotaRelease ctx name cid) (write_request (RQuotaRelease name cid)) (ok_response [FormatUint v]) (Ok (v = 1)) \<and>
    answers ctx (Client_QuotaDelete ctx name) (write_request (RQuotaDelete name)) (ok_response [FormatUint v]) (Ok (v = 1)) \<and>
    answers ctx (Client_QuotaInfo ctx name) (write_request (RQuotaInfo name)) (ok_response (quotaInfo_wire info)) (Ok info) \<and>
    answers ctx (Client_Scan ctx cursor cnt) (write_request (RScan cursor cnt)) (ok_response (scan_wire page)) (Ok page) \<and>
    answers ctx (Client_PScan ctx prefix cursor cnt) (write_request (RPScan prefix cursor cnt))
      (ok_response (scan_wire page)) (Ok page) \<and>
    answers ctx (Client_FlushDB ctx) (write_request RFlushDB) (ok_response [FormatUint v]) (Ok (v = 1)) \<and>
    answers ctx (Client_Truncate ctx) (write_request RTruncate) (ok_response [FormatUint v]) (Ok (v = 1))"
  unfolding operation_defs write_request.simps
  by (intro conjI command_answers plain_answers)
    (use assms in \<open>simp_all add: finish_def parsed_wire valuesToBools_def\<close>)

text \<open>An error the server reports, as the operation returns it.\<close>

definition refuses :: "ctx \<Rightarrow> (client_state, 'r) io \<Rightarrow> bytes \<Rightarrow> uint16 \<Rightarrow> string \<Rightarrow> bool" where
  "refuses ctx oper request code text \<longleftrightarrow>
     answers ctx oper request (err_response code text) (Err (ProtocolError code text))"

text \<open>C4: End to end, every operation returns an error the server reports as a protocol error with exactly
  its code and its text, whatever bytes the text has; the response is consumed and the connection is
  ready for the next operation.\<close>

theorem server_errors_end_to_end:
  assumes "unat code \<le> 9999"
  shows "refuses ctx (Client_Incr ctx key) (write_request (RIncr key)) code text \<and>
    refuses ctx (Client_Get ctx key) (write_request (RGet key)) code text \<and>
    refuses ctx (Client_Watch ctx key) (write_request (RWatch key)) code text \<and>
    refuses ctx (Client_Del ctx key) (write_request (RDel key)) code text \<and>
    refuses ctx (Client_MDel ctx ks) (write_request (RMDel ks)) code text \<and>
    refuses ctx (Client_RLimitFixedWindow ctx lkey limit) (write_request (RFixedWindow lkey limit)) code text \<and>
    refuses ctx (Client_RLimitSlidingWindow ctx lkey limit) (write_request (RSlidingWindow lkey limit)) code text \<and>
    refuses ctx (Client_RLimitTokenBucket ctx lkey limit refill) (write_request (RTokenBucket lkey limit refill)) code text \<and>
    refuses ctx (Client_QuotaAcquire ctx name amount cid (ttl_args ttl)) (write_request (RQuotaAcquire name amount cid ttl)) code text \<and>
    refuses ctx (Client_QuotaAcquireLease ctx name limit amount cid (ttl_args ttl)) (write_request (RQuotaAcquireLease name limit amount cid ttl)) code text \<and>
    refuses ctx (Client_QuotaAcquireN ctx name cid (ttl_args ttl)) (write_request (RQuotaAcquireN name cid ttl)) code text \<and>
    refuses ctx (Client_QuotaSet ctx name limit) (write_request (RQuotaSet name limit)) code text \<and>
    refuses ctx (Client_QuotaSetN ctx name limit cnt) (write_request (RQuotaSetN name limit cnt)) code text \<and>
    refuses ctx (Client_QuotaRelease ctx name cid) (write_request (RQuotaRelease name cid)) code text \<and>
    refuses ctx (Client_QuotaDelete ctx name) (write_request (RQuotaDelete name)) code text \<and>
    refuses ctx (Client_QuotaInfo ctx name) (write_request (RQuotaInfo name)) code text \<and>
    refuses ctx (Client_Scan ctx cursor cnt) (write_request (RScan cursor cnt)) code text \<and>
    refuses ctx (Client_PScan ctx prefix cursor cnt) (write_request (RPScan prefix cursor cnt)) code text \<and>
    refuses ctx (Client_FlushDB ctx) (write_request RFlushDB) code text \<and>
    refuses ctx (Client_Truncate ctx) (write_request RTruncate) code text"
  unfolding operation_defs write_request.simps refuses_def
  by (intro conjI command_answers plain_answers)
    (use assms in \<open>simp_all add: finish_def err_response_def parseError_encoded
      single.status_err multi.status_err rateLimit.status_err quotaAcq.status_err quotaInf.status_err scanResp.status_err\<close>)

text \<open>A client of one connection that gets the response \<open>m\<close> seven nanoseconds from now.\<close>

lemma example_responsive:
  assumes "length request \<le> 64" "length m \<le> 64"
  shows "responsive (example_client 64) 0 ctx_Background request
    (example_world (example_conn (arriving 7 (frame m)) [])) (arriving 7 (frame m)) m []"
  using assms by (simp add: responsive_def)

theorem operations_end_to_end_witness:
  "fst (Client_MDel ctx_Background [\<lparr>ck_Key = ''a'', ck_Capping = 60\<rparr>, \<lparr>ck_Key = ''b'', ck_Capping = 60\<rparr>]
     (example_cl [Some (example_client 64)] 1, [], example_world (example_conn (arriving 7 (frame ''ok|1;0'')) []))) =
   Ok [True, False]"
proof -
  let ?ks = "[\<lparr>ck_Key = ''a'', ck_Capping = (60 :: uint32)\<rparr>, \<lparr>ck_Key = ''b'', ck_Capping = (60 :: uint32)\<rparr>]"
  have m: "ok_response (map FormatUint [1, 0]) = ''ok|1;0''" and len: "length (write_request (RMDel ?ks)) \<le> 64" by code_simp+
  have "answers ctx_Background (Client_MDel ctx_Background ?ks) (write_request (RMDel ?ks)) ''ok|1;0'' (Ok [True, False])"
    using operations_end_to_end [of zero_QuotaInfo zero_ScanResult "[1, 0]" ctx_Background _ _ ?ks] m
    by (simp add: zero_QuotaInfo_def zero_ScanResult_def)
  from answers_result [OF this example_single_connection _ example_responsive [OF len]] show ?thesis
    by (simp add: BytesBufferPool_clean_def)
qed

theorem server_errors_end_to_end_witness:
  "fst (Client_Truncate ctx_Background (example_cl [Some (example_client 64)] 1, [],
     example_world (example_conn (arriving 7 (frame (err_response 2001 ''no|access''))) []))) =
   Err (ProtocolError 2001 ''no|access'')"
proof -
  have "length (write_request RTruncate) \<le> 64" "length (err_response 2001 ''no|access'') \<le> 64" by code_simp+
  note resp = example_responsive [OF this]
  have "answers ctx_Background (Client_Truncate ctx_Background) (write_request RTruncate)
      (err_response 2001 ''no|access'') (Err (ProtocolError 2001 ''no|access''))"
    using server_errors_end_to_end [of 2001 ctx_Background] by (simp add: refuses_def)
  from answers_result [OF this example_single_connection _ resp] show ?thesis
    by (simp add: BytesBufferPool_clean_def)
qed

subsection \<open>Connecting\<close>

text \<open>The next dial gives, at time \<open>a\<close>, a connection on which \<open>pre\<close> and then \<open>rest\<close> arrives and \<open>pre\<close> greets with \<open>h\<close>.\<close>

definition greeted :: "TCPClient \<Rightarrow> world \<Rightarrow> int \<Rightarrow> rx_script \<Rightarrow> helloInfo \<Rightarrow> rx_script \<Rightarrow> bool" where
  "greeted c w a pre h rest \<longleftrightarrow>
     (\<exists>ds. dials w = (a, Inr (pre @ rest, [])) # ds) \<and>
     map snd pre = map RxByte (frame (ok_response (hello_wire h))) \<and>
     hi_version h = ProtocolVersion \<and> 0 < hi_maxMessageSize h \<and> hi_maxMessageSize h < 2 ^ 31 \<and>
     multiDataDelimiter \<notin> set (hi_role h) \<and>
     int (length (helloRequest (token c))) \<le> maxMessageSize c \<and> maxMessageSize c < 2 ^ 32 \<and>
     int (length (ok_response (hello_wire h))) \<le> maxMessageSize c \<and> 0 < idleTimeout c \<and>
     (let t = max (now w) a in prompt (TCPClient_deadline c (ctx_WithTimeout t connectTimeout) t) pre)"

lemma dial_eq: "dial addr tls = wrapErr (if tls = None then ''failed to dial: %w'' else ''failed to dial tls: %w'') (net_Dial addr tls)"
  by (cases tls) (simp_all add: dial_def)

lemma connect_deadline: "0 < idleTimeout c \<Longrightarrow> t < TCPClient_deadline c (ctx_WithTimeout t connectTimeout) t"
  by (simp add: TCPClient_deadline_def ctx_WithTimeout_def connectTimeout_def Let_def)

lemma connect_greeted:
  assumes "buffers_wf c" and "greeted c w a pre h rest"
  shows "\<exists>p c' w'. connect (c, w) = (Ok (), (c', w')) \<and>
    c' = c\<lparr>connection := Some (nconns w), maxMessageSize := hi_maxMessageSize h, bufferPool := p\<rparr> \<and> tcp_wf c' \<and>
    now w' = arrival (max (now w) a) pre \<and> nconns w' = Suc (nconns w) \<and>
    nc_in (conns w' (nconns w)) = rest \<and> nc_tx (conns w' (nconns w)) = [] \<and> \<not> nc_closed (conns w' (nconns w)) \<and>
    nc_out (conns w' (nconns w)) = frame (helloRequest (token c))"
proof -
  let ?t = "max (now w) a" and ?fd = "nconns w" and ?m = "ok_response (hello_wire h)"
  let ?ctx = "ctx_WithTimeout ?t connectTimeout" and ?c = "c\<lparr>connection := Some ?fd\<rparr>"
  from assms(2) obtain ds where ds: "dials w = (a, Inr (pre @ rest, [])) # ds" by (auto simp: greeted_def)
  define w1 where "w1 = w\<lparr>dialed := dialed w @ [(address c, tlsConfig c)], now := ?t, dials := ds, nconns := Suc ?fd,
    conns := (conns w)(?fd := \<lparr>nc_in = pre @ rest, nc_tx = [], nc_out = [], nc_deadline = None, nc_closed = False\<rparr>)\<rparr>"
  have dial: "dial (address c) (tlsConfig c) w = (Ok ?fd, w1)"
    by (simp add: dial_eq net_Dial_def ds wrapErr_def mapErr_def w1_def Let_def)
  have w1: "now w1 = ?t" "conns w1 ?fd = \<lparr>nc_in = pre @ rest, nc_tx = [], nc_out = [], nc_deadline = None, nc_closed = False\<rparr>"
    by (simp_all add: w1_def)
  have "?t < TCPClient_deadline ?c ?ctx ?t"
    using assms(2) by (intro connect_deadline) (simp add: greeted_def)
  with Send_answered [of ?c ?fd "helloRequest (token c)" w1 ?ctx pre rest ?m] assms w1
  obtain p where sent: "Send ?ctx (helloRequest (token c)) (?c, w1) = (Ok ?m, (?c\<lparr>bufferPool := p\<rparr>,
    w1\<lparr>now := arrival ?t pre, conns := (conns w1)(?fd := (conns w1 ?fd)\<lparr>
      nc_deadline := Some (TCPClient_deadline ?c ?ctx ?t), nc_out := frame (helloRequest (token c)), nc_in := rest\<rparr>)\<rparr>))"
    by (auto simp: greeted_def tcp_wf_iff Let_def TCPClient_deadline_def)
  have parse: "parseHelloResponse ?m = Inr (success h)"
    using assms(2) by (simp add: greeted_def ok_response_parsers helloFields_wire)
  show ?thesis
    using dial sent parse assms(2) w1
    by (auto simp: connect_def hello_def io_simps greeted_def SetMaxMessageSizeUnsafe_def newBytesPool_def w1_def
      tcp_wf_def bytesPool_clean_def)
qed

subsection \<open>Recovery\<close>

text \<open>
  A run of failed attempts: each reconnect fails, or it succeeds and the connection is lost again while
  sending; the context is not done before any of them.
\<close>

inductive failed_attempts :: "ctx \<Rightarrow> bytes \<Rightarrow> nat \<Rightarrow> tcp_state \<Rightarrow> tcp_state \<Rightarrow> bool" for ctx data where
  none: "failed_attempts ctx data 0 s s"
| redial_failed: "ctx_Err ctx (now (snd s)) = None \<Longrightarrow> Reconnect s = (Err e, s1) \<Longrightarrow>
    failed_attempts ctx data n s1 s2 \<Longrightarrow> failed_attempts ctx data (Suc n) s s2"
| lost_again: "ctx_Err ctx (now (snd s)) = None \<Longrightarrow> Reconnect s = (Ok u, s1) \<Longrightarrow>
    Send ctx data s1 = (Err e, s2) \<Longrightarrow> errors_Is e ErrConnClosed \<Longrightarrow>
    failed_attempts ctx data n s2 s3 \<Longrightarrow> failed_attempts ctx data (Suc n) s s3"

lemma reconnectLoop_after_failures:
  assumes "failed_attempts ctx data n s s'"
    and "ctx_Err ctx (now (snd s')) = None" "Reconnect s' = (Ok u, t)" "Send ctx data t = (Ok m, t')"
  shows "reconnectLoop (Send ctx data) ctx k (Suc (n + d)) e s = (Ok m, t')"
  using assms(1,2-4)
proof (induction arbitrary: k e rule: failed_attempts.induct)
  case (none s)
  then show ?case by simp
qed simp_all

lemma failed_attempts_usable:
  assumes "failed_attempts ctx data n s s'" and "usable (fst s) (snd s)"
  shows "usable (fst s') (snd s') \<and> same_settings (fst s) (fst s')"
  using assms
proof (induction rule: failed_attempts.induct)
  case (redial_failed s e s1 n s2)
  with usable_Reconnect [of "fst s" "snd s" "Err e" "fst s1" "snd s1"] show ?case by (auto simp: same_settings_def)
next
  case (lost_again s u s1 e s2 n s3)
  with usable_Reconnect [of "fst s" "snd s" "Ok u" "fst s1" "snd s1"]
    single_frame.request_contract [of "fst s1" "snd s1" ctx data "Err e" "fst s2" "snd s2"]
  show ?case by (auto simp: same_settings_def)
qed (simp add: same_settings_def)

lemma Reconnect_greeted:
  assumes "usable c w" and "greeted c w a pre h rest"
  shows "\<exists>p c' w'. Reconnect (c, w) = (Ok (), (c', w')) \<and>
    c' = c\<lparr>connection := Some (nconns w), maxMessageSize := hi_maxMessageSize h, bufferPool := p\<rparr> \<and> tcp_wf c' \<and>
    now w' = arrival (max (now w) a) pre \<and> nc_in (conns w' (nconns w)) = rest \<and> nc_tx (conns w' (nconns w)) = [] \<and>
    \<not> nc_closed (conns w' (nconns w))"
proof -
  obtain fd where fd: "tcp_wf c" "connection c = Some fd" using assms(1) by (rule usableE)
  obtain q w1 where cl: "conn_Close fd w = (q, w1)" by force
  then have w1: "dials w1 = dials w" "now w1 = now w" "nconns w1 = nconns w" "returns q"
    by (auto simp: conn_Close_def split: if_splits)
  have "Reconnect (c, w) = connect (c, w1)"
    using fd cl w1(4) by (cases q) (auto simp: Reconnect_def TCPClient_Close_def on_conn_def)
  moreover have "buffers_wf c" "greeted c w1 a pre h rest" using fd(1) assms(2) w1 by (auto simp: tcp_wf_iff greeted_def)
  ultimately show ?thesis using connect_greeted [of c w1 a pre h rest] w1 by fastforce
qed

text \<open>C5: A lost connection is made up for. When a request loses its connection, and even if up to 15 further
  attempts fail too, the next dial is enough if the context is not done by then: if the dialed server
  greets properly and then answers in time, the request returns its answer.\<close>

theorem sendWithReconnect_recovers:
  assumes "usable c w" and "Send ctx data (c, w) = (Err e, s1)" "errors_Is e ErrConnClosed"
    and "failed_attempts ctx data n s1 (c2, w2)" "n < 16" "ctx_Err ctx (now w2) = None"
    and "greeted c2 w2 a hello_in h (pre @ rest)" "t = arrival (max (now w2) a) hello_in"
    and "map snd pre = map RxByte (frame m)" "prompt (TCPClient_deadline c ctx t) pre" "t < TCPClient_deadline c ctx t"
    and "int (length data) \<le> hi_maxMessageSize h" "int (length m) \<le> hi_maxMessageSize h"
  shows "\<exists>s'. sendWithReconnect ctx data (c, w) = (Ok m, s') \<and> inbox s' = rest"
proof -
  have us: "usable (fst s1) (snd s1)" "same_settings c (fst s1)"
    using single_frame.request_contract [OF assms(1), of ctx data "Err e" "fst s1" "snd s1"] assms(2) by auto
  with failed_attempts_usable [OF assms(4)] have
    u2: "usable c2 w2" "same_settings c c2" by (auto simp: same_settings_def)
  from Reconnect_greeted [OF u2(1) assms(7)] obtain p c3 w3 where rc: "Reconnect (c2, w2) = (Ok (), (c3, w3))"
    and c3: "c3 = c2\<lparr>connection := Some (nconns w2), maxMessageSize := hi_maxMessageSize h, bufferPool := p\<rparr>" "tcp_wf c3"
    and w3: "now w3 = t" "nc_in (conns w3 (nconns w2)) = pre @ rest" "nc_tx (conns w3 (nconns w2)) = []"
      "\<not> nc_closed (conns w3 (nconns w2))" using assms(8) by auto
  have dl: "TCPClient_deadline c3 ctx t = TCPClient_deadline c ctx t"
    using u2(2) c3(1) by (simp add: TCPClient_deadline_def same_settings_def)
  have "hi_maxMessageSize h < 2 ^ 32" using assms(7) by (simp add: greeted_def)
  with Send_answered [of c3 "nconns w2" data w3 ctx pre rest m] c3 w3 dl assms(9-) obtain c' w' where
    sent: "Send ctx data (c3, w3) = (Ok m, (c', w'))" "connection c' = Some (nconns w2)" "nc_in (conns w' (nconns w2)) = rest"
    by auto
  have "reconnectLoop (Send ctx data) ctx 1 (Suc (n + (15 - n))) e s1 = (Ok m, (c', w'))"
    by (rule reconnectLoop_after_failures [OF assms(4) _ rc sent(1)]) (simp add: assms(6))
  then have "reconnectLoop (Send ctx data) ctx 1 16 e s1 = (Ok m, (c', w'))" using assms(5) by simp
  with sent assms(2,3) show ?thesis by (auto simp: sendWithReconnect_def maxReconnectAttempts_def inbox_def)
qed

text \<open>A client whose connection was closed by the peer; the next dial finds the server again.\<close>

definition restored_world :: "bytes \<Rightarrow> world" where
  "restored_world m = (example_world ((example_conn [] [])\<lparr>nc_closed := True\<rparr>))\<lparr>dials :=
     [(5, Inr (arriving 6 (frame ''ok|1;64;0;'') @ arriving 7 (frame m), []))]\<rparr>"

theorem sendWithReconnect_recovers_witness:
  "\<exists>s'. sendWithReconnect ctx_Background ''GET k 60'' (example_client 64, restored_world ''ok|5'') = (Ok ''ok|5'', s') \<and> inbox s' = []"
proof -
  let ?c = "example_client 64" and ?w = "restored_world ''ok|5''"
  let ?h = "\<lparr>hi_version = 1, hi_maxMessageSize = 64, hi_authRequired = False, hi_role = ''''\<rparr>"
  have u: "usable ?c ?w" by (simp add: usable_def restored_world_def)
  have "\<exists>s1. Send ctx_Background ''GET k 60'' (?c, ?w) =
      (Err (Errorf ''%w: %w'' [W (Sentinel ErrConnClosed), W (Sentinel NetErrClosed)]), s1) \<and> s1 = (?c, ?w)"
    by (simp add: Send_def example_client_def restored_world_def setDeadline_def on_conn_def conn_SetDeadline_def io_simps
      normalizeConnectionError_def isConnectionError_def)
  then have lost: "Send ctx_Background ''GET k 60'' (?c, ?w) =
      (Err (Errorf ''%w: %w'' [W (Sentinel ErrConnClosed), W (Sentinel NetErrClosed)]), (?c, ?w))" by blast
  have hello: "ok_response (hello_wire ?h) = ''ok|1;64;0;''" "length (helloRequest '''') = 7" by code_simp+
  have greet: "greeted ?c ?w 5 (arriving 6 (frame ''ok|1;64;0;'')) ?h (arriving 7 (frame ''ok|5'') @ [])"
    unfolding greeted_def hello
    by (simp add: restored_world_def example_client_def hello ProtocolVersion_def TCPClient_deadline_def
      ctx_WithTimeout_def connectTimeout_def Let_def)
  have "5 \<le> arrival 5 (arriving 6 (frame ''ok|1;64;0;''))" using arrival_bounds by blast
  then show ?thesis
    by (intro sendWithReconnect_recovers [OF u lost _ none _ _ greet refl, where m = "''ok|5''"])
      (simp_all add: restored_world_def example_client_def TCPClient_deadline_def Let_def ctx_Err_def ctx_Background_def expired_def)
qed

end
