(* ===== verification/Sharded_Batches.thy ===== *)
theory Sharded_Batches
  imports Sharded_Client End_to_End
begin

text \<open>
  The operations of \<^verbatim>\<open>sharded_client.go\<close> that visit several shards in one call: \<^verbatim>\<open>MDel\<close>, whose results
  come back in the order of the keys, and the scans, which walk through the shards page by page. The
  contract of scanning one shard is the locale \<open>shard_scanner\<close>.
\<close>

subsection \<open>Deleting many keys\<close>

text \<open>The keys of shard \<open>i\<close> in the argument's order, with their positions, which start at \<open>n\<close>.\<close>

definition in_shard :: "ShardedClient \<Rightarrow> nat \<Rightarrow> CappingKey \<Rightarrow> bool" where
  "in_shard c i key \<longleftrightarrow> shardIndexByKey c (ck_Key key) = Inr i"

definition shard_group :: "ShardedClient \<Rightarrow> nat \<Rightarrow> nat \<Rightarrow> CappingKey list \<Rightarrow> (CappingKey \<times> nat) list" where
  "shard_group c n i ks = filter (\<lambda>(key, p). in_shard c i key) (zip ks [n..<n + length ks])"

lemma shard_group_Cons:
  "shard_group c n i (key # ks) = (if in_shard c i key then [(key, n)] else []) @ shard_group c (Suc n) i ks"
  by (simp add: shard_group_def upt_conv_Cons del: upt_Suc)

lemma groupKeys_result:
  assumes "groupKeys c n ks g = Inr g'"
  shows "g' i = g i @ shard_group c n i ks \<and> (\<forall>key \<in> set ks. \<exists>j. in_shard c j key)"
  using assms
proof (induction ks arbitrary: n g)
  case (Cons key ks)
  then obtain j where j: "shardIndexByKey c (ck_Key key) = Inr j" by (auto split: sum.splits)
  with Cons.prems have "groupKeys c (Suc n) ks (g(j := g j @ [(key, n)])) = Inr g'" by simp
  from Cons.IH [OF this] j show ?case by (auto simp: shard_group_Cons in_shard_def)
qed (simp add: shard_group_def)

lemma shard_group_positions:
  "map fst (shard_group c n i ks) = filter (in_shard c i) ks"
  "distinct (map snd (shard_group c n i ks))"
  "(key, p) \<in> set (shard_group c n i ks) \<longleftrightarrow> n \<le> p \<and> p < n + length ks \<and> key = ks ! (p - n) \<and> in_shard c i key"
proof -
  show "map fst (shard_group c n i ks) = filter (in_shard c i) ks"
    by (induction ks arbitrary: n) (simp_all add: shard_group_Cons, simp add: shard_group_def)
  have "distinct (map snd (zip ks [n..<n + length ks]))" by simp
  then show "distinct (map snd (shard_group c n i ks))"
    unfolding shard_group_def by (rule distinct_map_filter)
  show "(key, p) \<in> set (shard_group c n i ks) \<longleftrightarrow> n \<le> p \<and> p < n + length ks \<and> key = ks ! (p - n) \<and> in_shard c i key"
    by (auto simp: shard_group_def set_zip intro!: exI [of _ "p - n"])
qed

lemma length_shard_group: "length (shard_group c n i ks) = length (filter (in_shard c i) ks)"
  using arg_cong [OF shard_group_positions(1), of length] by simp

lemma groupKeys_unowned:
  assumes "key \<in> set ks" and "\<forall>i. \<not> in_shard c i key"
  shows "\<exists>e. groupKeys c n ks g = Inl e \<and> errors_Is e ErrShardIndexOutOfRange"
  using assms(1)
proof (induction ks arbitrary: n g)
  case (Cons k ks)
  show ?case
  proof (cases "shardIndexByKey c (ck_Key k)")
    case (Inl e)
    then show ?thesis by (auto simp: shardIndexByKey_def Let_def split: if_splits)
  next
    case (Inr j)
    with assms(2) have "k \<noteq> key" by (auto simp: in_shard_def)
    with Cons Inr show ?thesis by auto
  qed
qed simp

text \<open>The place of a key among the keys of its shard.\<close>

lemma shard_group_nth:
  assumes "p < length ks" and "in_shard c i (ks ! p)"
  shows "length (filter (in_shard c i) (take p ks)) < length (shard_group c n i ks) \<and>
    shard_group c n i ks ! length (filter (in_shard c i) (take p ks)) = (ks ! p, n + p)"
  using assms
proof (induction ks arbitrary: n p)
  case (Cons key ks)
  show ?case
  proof (cases p)
    case 0
    with Cons.prems show ?thesis by (simp add: shard_group_Cons)
  next
    case (Suc q)
    with Cons.prems Cons.IH [of q "Suc n"] show ?thesis by (auto simp: shard_group_Cons)
  qed
qed simp

lemma storeResults_result:
  assumes "length rs = length iks" and "distinct (map snd iks)" and "list_all (\<lambda>(key, p). p < length res) iks"
  shows "length (storeResults res iks rs) = length res \<and>
    (\<forall>j < length iks. storeResults res iks rs ! snd (iks ! j) = rs ! j) \<and>
    (\<forall>p. p \<notin> set (map snd iks) \<longrightarrow> storeResults res iks rs ! p = res ! p)"
  using assms
proof (induction res iks rs rule: storeResults.induct)
  case (1 res key p iks r rs)
  then have IH: "length (storeResults (res[p := r]) iks rs) = length res"
    "\<forall>j < length iks. storeResults (res[p := r]) iks rs ! snd (iks ! j) = rs ! j"
    "\<forall>q. q \<notin> set (map snd iks) \<longrightarrow> storeResults (res[p := r]) iks rs ! q = res[p := r] ! q"
    by auto
  have "p < length res" "p \<notin> set (map snd iks)" using "1.prems" by auto
  then have "storeResults res ((key, p) # iks) (r # rs) ! snd (((key, p) # iks) ! j) = (r # rs) ! j"
    if "j < length ((key, p) # iks)" for j
    using IH that by (cases j) auto
  moreover have "storeResults res ((key, p) # iks) (r # rs) ! q = res ! q" if "q \<notin> set (map snd ((key, p) # iks))" for q
    using IH(3) that by auto
  ultimately show ?case using IH(1) by auto
qed auto

text \<open>The shard \<open>i\<close>, in the state it has in \<open>c\<close>, answers the deletion of \<open>ks\<close> with \<open>rs\<close>.\<close>

definition shard_answers :: "ctx \<Rightarrow> ShardedClient \<Rightarrow> nat \<Rightarrow> CappingKey list \<Rightarrow> bool list \<Rightarrow> bool" where
  "shard_answers ctx c i ks rs \<longleftrightarrow>
     (\<exists>bufs w s1. Client_MDel ctx ks (shards c ! i, bufs, w) = (Ok rs, s1))"

lemma deleteGroups_result:
  assumes "deleteGroups ctx g order res (c, s) = (Ok res', s')" and "distinct order"
    and "\<forall>i \<in> set order. distinct (map snd (g i)) \<and> list_all (\<lambda>(key, p). p < length res) (g i)"
    and "\<forall>i \<in> set order. \<forall>j. j \<noteq> i \<longrightarrow> set (map snd (g i)) \<inter> set (map snd (g j)) = {}"
  shows "length res' = length res \<and>
    (\<forall>i \<in> set order. \<exists>rs. shard_answers ctx c i (map fst (g i)) rs \<and>
       length rs = length (g i) \<and> (\<forall>j < length (g i). res' ! snd (g i ! j) = rs ! j)) \<and>
    (\<forall>p. (\<forall>i \<in> set order. p \<notin> set (map snd (g i))) \<longrightarrow> res' ! p = res ! p)"
  using assms
proof (induction order arbitrary: res c s)
  case (Cons i order)
  then obtain rs c1 s1 where on: "onShard i (Client_MDel ctx (map fst (g i))) (c, s) = (Ok rs, (c1, s1))"
    and len: "length rs = length (g i)"
    and rest: "deleteGroups ctx g order (storeResults res (g i) rs) (c1, s1) = (Ok res', s')"
    by (auto elim!: bindR_Ok split: if_splits simp: throw_def)
  have t1: "shard_answers ctx c i (map fst (g i)) rs"
    using on unfolding shard_answers_def onShard_def by (cases s) (fastforce split: prod.splits if_splits)
  let ?res = "storeResults res (g i) rs"
  have stored: "length ?res = length res \<and> (\<forall>j < length (g i). ?res ! snd (g i ! j) = rs ! j) \<and>
      (\<forall>p. p \<notin> set (map snd (g i)) \<longrightarrow> ?res ! p = res ! p)"
    using Cons.prems(3) len by (intro storeResults_result) auto
  have IH: "length res' = length ?res \<and>
    (\<forall>i \<in> set order. \<exists>rs. shard_answers ctx c1 i (map fst (g i)) rs \<and>
       length rs = length (g i) \<and> (\<forall>j < length (g i). res' ! snd (g i ! j) = rs ! j)) \<and>
    (\<forall>p. (\<forall>i \<in> set order. p \<notin> set (map snd (g i))) \<longrightarrow> res' ! p = ?res ! p)"
    using Cons.prems(2,3,4) stored by (intro Cons.IH [OF rest]) auto
  have same: "shards c1 ! k = shards c ! k" if "k \<in> set order" for k
    using onShard_shards(3) [OF on, of k] that Cons.prems(2) by (cases "k = i") auto
  have here: "res' ! snd (g i ! j) = rs ! j" if "j < length (g i)" for j
  proof -
    have elem: "snd (g i ! j) \<in> set (map snd (g i))" using that by simp
    have "snd (g i ! j) \<notin> set (map snd (g k))" if "k \<in> set order" for k
    proof -
      have "k \<noteq> i" using that Cons.prems(2) by auto
      with Cons.prems(4) have "set (map snd (g i)) \<inter> set (map snd (g k)) = {}" by simp
      with elem show ?thesis by blast
    qed
    with IH stored that show ?thesis by metis
  qed
  have "\<exists>rs. shard_answers ctx c k (map fst (g k)) rs \<and>
       length rs = length (g k) \<and> (\<forall>j < length (g k). res' ! snd (g k ! j) = rs ! j)" if "k \<in> set (i # order)" for k
  proof (cases "k = i")
    case True
    with t1 len here show ?thesis by blast
  next
    case False
    with that have k: "k \<in> set order" by simp
    then have "shard_answers ctx c1 k ks' rs' = shard_answers ctx c k ks' rs'" for ks' rs'
      by (simp add: shard_answers_def same)
    with IH k show ?thesis by metis
  qed
  with IH stored show ?case by auto
qed simp

subsection \<open>Walking through the shards\<close>

text \<open>
  A position of a scan is a shard and a cursor of that shard. A page takes it to the shard's next cursor,
  or to the start of the next shard when the shard has no more.
\<close>

definition advance :: "nat \<times> string \<Rightarrow> ScanResult \<Rightarrow> nat \<times> string" where
  "advance pos page =
     (if sr_Cursor page = ScanCursorInitial then (fst pos + 1, ScanCursorInitial) else (fst pos, sr_Cursor page))"

text \<open>The shard at \<open>pos\<close> answers a request for \<open>count\<close> keys with \<open>page\<close>.\<close>

definition page_at ::
  "(string \<Rightarrow> uint32 \<Rightarrow> (client_state, ScanResult) io) \<Rightarrow> ShardedClient \<Rightarrow> nat \<times> string \<Rightarrow> uint32 \<Rightarrow> ScanResult \<Rightarrow> bool"
where
  "page_at scanShard c pos count page \<longleftrightarrow>
     (\<exists>bufs w s1. scanShard (snd pos) count (shards c ! fst pos, bufs, w) = (Ok page, s1))"

text \<open>
  The pages of one call for \<open>count\<close> keys, \<open>n\<close> of which are there already: each is what the shard at the
  position reached so far answers when asked for the missing keys, and there is a next page only
  while keys are missing and the shard of the last page has no more.
\<close>

fun scan_walk ::
  "(string \<Rightarrow> uint32 \<Rightarrow> (client_state, ScanResult) io) \<Rightarrow> ShardedClient \<Rightarrow> uint32 \<Rightarrow> nat \<times> string \<Rightarrow> nat \<Rightarrow>
     ScanResult list \<Rightarrow> bool"
where
  "scan_walk scanShard c count pos n [] = True"
| "scan_walk scanShard c count pos n (page # pages) \<longleftrightarrow>
     fst pos < length (shards c) \<and> n < unat count \<and> page_at scanShard c pos (count - of_nat n) page \<and>
     (pages \<noteq> [] \<longrightarrow> sr_Cursor page = ScanCursorInitial) \<and>
     scan_walk scanShard c count (advance pos page) (n + length (sr_Keys page)) pages"

lemma scan_walk_cong:
  assumes "length (shards c') = length (shards c)" and "\<forall>j \<ge> fst pos. shards c' ! j = shards c ! j"
  shows "scan_walk scanShard c' count pos n pages = scan_walk scanShard c count pos n pages"
  using assms
proof (induction pages arbitrary: pos n)
  case (Cons page pages)
  have "\<forall>j \<ge> fst (advance pos page). shards c' ! j = shards c ! j"
    using Cons.prems(2) by (auto simp: advance_def)
  with Cons show ?case by (simp add: page_at_def)
qed simp

lemma makeScanCursor_cong: "length (shards c') = length (shards c) \<Longrightarrow> makeScanCursor c' i cur = makeScanCursor c i cur"
  by (simp add: makeScanCursor_def)

lemma scanLoop_walk:
  assumes "scanLoop scanShard count i cur ks (c, s) = (Ok result, s')"
    and "cur = ScanCursorInitial \<or> i < length (shards c) \<and> length ks < unat count"
  shows "\<exists>pages. scan_walk scanShard c count (i, cur) (length ks) pages \<and>
    sr_Keys result = ks @ concat (map sr_Keys pages) \<and>
    sr_Cursor result = (case foldl advance (i, cur) pages of (i', cur') \<Rightarrow> makeScanCursor c i' cur') \<and>
    (pages \<noteq> [] \<and> sr_Cursor (last pages) \<noteq> ScanCursorInitial \<or> unat count \<le> length (sr_Keys result) \<or>
     length (shards c) \<le> fst (foldl advance (i, cur) pages))"
  using assms
proof (induction "length (shards c) - i" arbitrary: i cur ks c s rule: less_induct)
  case less
  show ?case
  proof (cases "i < length (shards c) \<and> length ks < unat count")
    case False
    with less.prems have "result = \<lparr>sr_Cursor = makeScanCursor c i ScanCursorInitial, sr_Keys = ks\<rparr>" "cur = ScanCursorInitial"
      by (auto simp: scanLoop.simps [of _ _ i])
    with False show ?thesis by (intro exI [of _ "[]"]) auto
  next
    case True
    obtain q c1 s1 where q: "onShard i (scanShard cur (count - of_nat (length ks))) (c, s) = (q, (c1, s1))"
      by (metis prod_cases3)
    with True less.prems(1) obtain page where page: "q = Ok page"
      by (cases q) (auto simp: scanLoop.simps [of _ _ i])
    obtain bufs w where s: "s = (bufs, w)" by (cases s)
    have at: "page_at scanShard c (i, cur) (count - of_nat (length ks)) page"
      using q page True unfolding page_at_def s onShard_def by (fastforce split: prod.splits)
    note same = onShard_shards [OF q]
    show ?thesis
    proof (cases "sr_Cursor page = ScanCursorInitial")
      case False
      with True q page less.prems(1) have
        "result = \<lparr>sr_Cursor = makeScanCursor c1 i (sr_Cursor page), sr_Keys = ks @ sr_Keys page\<rparr>"
        by (auto simp: scanLoop.simps [of _ _ i])
      with False True at same(1) show ?thesis
        by (intro exI [of _ "[page]"]) (auto simp: advance_def makeScanCursor_cong [OF same(1)])
    next
      case finished: True
      with True q page less.prems(1) have
        rest: "scanLoop scanShard count (i + 1) ScanCursorInitial (ks @ sr_Keys page) (c1, s1) = (Ok result, s')"
        by (auto simp: scanLoop.simps [of _ _ i])
      have "length (shards c1) - (i + 1) < length (shards c) - i" using True same(1) by auto
      from less.hyps [OF this rest] obtain pages where pages: "scan_walk scanShard c1 count (i + 1, ScanCursorInitial) (length (ks @ sr_Keys page)) pages"
        "sr_Keys result = (ks @ sr_Keys page) @ concat (map sr_Keys pages)"
        "sr_Cursor result = (case foldl advance (i + 1, ScanCursorInitial) pages of (i', cur') \<Rightarrow> makeScanCursor c1 i' cur')"
        "pages \<noteq> [] \<and> sr_Cursor (last pages) \<noteq> ScanCursorInitial \<or> unat count \<le> length (sr_Keys result) \<or>
          length (shards c1) \<le> fst (foldl advance (i + 1, ScanCursorInitial) pages)"
        by auto
      have "scan_walk scanShard c count (i + 1, ScanCursorInitial) (length (ks @ sr_Keys page)) pages"
        using pages(1) scan_walk_cong [of c1 c "(i + 1, ScanCursorInitial)"] same by auto
      moreover have "advance (i, cur) page = (i + 1, ScanCursorInitial)" using finished by (simp add: advance_def)
      ultimately show ?thesis
        using pages(2-) True at finished same(1)
        by (intro exI [of _ "page # pages"]) (auto simp: makeScanCursor_cong [OF same(1)] split: prod.splits)
    qed
  qed
qed
text \<open>What the sharded scans rely on: scanning one shard is an operation of that shard.\<close>

locale shard_scanner =
  fixes scanShard :: "string \<Rightarrow> uint32 \<Rightarrow> (client_state, ScanResult) io"
  assumes scanShard_operation: "shard_operation (scanShard cursor count)"
begin

lemma scanLoop_ok:
  assumes "sharded_inv (c, s)"
  shows "returns (fst (scanLoop scanShard count i cur ks (c, s))) \<and>
    sharded_inv (snd (scanLoop scanShard count i cur ks (c, s)))"
  using assms
proof (induction "length (shards c) - i" arbitrary: i cur ks c s rule: less_induct)
  case less
  show ?case
  proof (cases "i < length (shards c) \<and> length ks < unat count")
    case True
    obtain bufs w where s: "s = (bufs, w)" by (cases s)
    obtain q c1 bufs1 w1 where q: "onShard i (scanShard cur (count - of_nat (length ks))) (c, bufs, w) = (q, (c1, bufs1, w1))"
      by (metis prod_cases4)
    note op = shard_operation.onShard_ok [OF scanShard_operation less.prems [unfolded s] conjunct1 [OF True] q]
    show ?thesis
    proof (cases q)
      case (Ok page)
      have "length (shards c1) - (i + 1) < length (shards c) - i" "sharded_inv (c1, bufs1, w1)" using op True by auto
      from less.hyps [OF this] True q Ok s op show ?thesis by (simp add: scanLoop.simps [of _ _ i] Let_def)
    qed (use True q s op in \<open>simp_all add: scanLoop.simps [of _ _ i]\<close>)
  qed (use less.prems in \<open>auto simp: scanLoop.simps [of _ _ i]\<close>)
qed

lemma sharded_scan_ok: "preserves sharded_inv (sharded_scan cursor count scanShard)"
proof (rule preservesI)
  fix s assume s: "sharded_inv s"
  obtain c bufs w where c: "s = (c, bufs, w)" by (cases s)
  obtain q c1 bufs1 w1 where q: "onShard 0 (scanShard ScanCursorInitial count) (c, bufs, w) = (q, (c1, bufs1, w1))"
    by (metis prod_cases4)
  have "0 < length (shards c)" using s c by (simp add: sharded_inv_def)
  note op = shard_operation.onShard_ok [OF scanShard_operation s [unfolded c] this q]
  show "returns (fst (sharded_scan cursor count scanShard s)) \<and> sharded_inv (snd (sharded_scan cursor count scanShard s))"
    using op q s c scanLoop_ok by (auto simp: sharded_scan_def split: sum.splits)
qed

end

interpretation all_keys: shard_scanner "Client_Scan ctx" for ctx
  unfolding Client_Scan_def [abs_def] scan_def by unfold_locales

interpretation keys_with_prefix: shard_scanner "Client_PScan ctx prefix" for ctx prefix
  unfolding Client_PScan_def [abs_def] scan_def by unfold_locales

lemma deleteGroups_ok:
  assumes "sharded_inv (c, s)" and "\<forall>i \<in> set order. i < length (shards c)"
  shows "returns (fst (deleteGroups ctx g order res (c, s))) \<and> sharded_inv (snd (deleteGroups ctx g order res (c, s)))"
  using assms
proof (induction order arbitrary: res c s)
  case (Cons i order)
  obtain bufs w where s: "s = (bufs, w)" by (cases s)
  obtain q c1 bufs1 w1 where q: "onShard i (Client_MDel ctx (map fst (g i))) (c, bufs, w) = (q, (c1, bufs1, w1))"
    by (metis prod_cases4)
  have "shard_operation (Client_MDel ctx ks)" for ks unfolding Client_MDel_def by unfold_locales
  from shard_operation.onShard_ok [OF this Cons.prems(1) [unfolded s] _ q] Cons.prems(2)
  have op: "returns q" "sharded_inv (c1, bufs1, w1)" "length (shards c1) = length (shards c)" by auto
  then have "returns (fst (deleteGroups ctx g order res' (c1, bufs1, w1))) \<and>
      sharded_inv (snd (deleteGroups ctx g order res' (c1, bufs1, w1)))" for res'
    using Cons.prems(2) by (intro Cons.IH) auto
  with op q s show ?case by (cases q) (auto simp: io_simps throw_def)
qed simp

text \<open>C18: Every operation of a sharded client on one key, the scans and the deletion of many keys return, on
  every network, for every cursor and with every sharding function, and leave all shards ready for the next
  operation; the deletion in whatever order the shards that own keys are visited.\<close>

theorem operations_keep_the_shards_ready:
  assumes "sharded_inv (c, bufs, w)" and "\<forall>i \<in> set order. \<exists>key \<in> set ks. in_shard c i key"
  shows "preserves sharded_inv (Sharded_Incr ctx key) \<and> preserves sharded_inv (Sharded_Get ctx key) \<and>
   preserves sharded_inv (Sharded_Watch ctx key) \<and> preserves sharded_inv (Sharded_Del ctx key) \<and>
   preserves sharded_inv (Sharded_RLimitFixedWindow ctx lkey n) \<and>
   preserves sharded_inv (Sharded_RLimitSlidingWindow ctx lkey n) \<and>
   preserves sharded_inv (Sharded_RLimitTokenBucket ctx lkey n k) \<and>
   preserves sharded_inv (Sharded_QuotaAcquire ctx name n cid ttl) \<and>
   preserves sharded_inv (Sharded_QuotaAcquireLease ctx name n k cid ttl) \<and>
   preserves sharded_inv (Sharded_QuotaAcquireN ctx name cid ttl) \<and>
   preserves sharded_inv (Sharded_QuotaSet ctx name n) \<and> preserves sharded_inv (Sharded_QuotaSetN ctx name n k) \<and>
   preserves sharded_inv (Sharded_QuotaRelease ctx name cid) \<and> preserves sharded_inv (Sharded_QuotaDelete ctx name) \<and>
   preserves sharded_inv (Sharded_QuotaInfo ctx name) \<and>
   preserves sharded_inv (Sharded_Scan ctx cursor count) \<and>
   preserves sharded_inv (Sharded_PScan ctx prefix cursor count) \<and>
   returns (fst (Sharded_MDel order ctx ks (c, bufs, w))) \<and> sharded_inv (snd (Sharded_MDel order ctx ks (c, bufs, w)))"
proof -
  have "\<forall>i \<in> set order. i < length (shards c)"
    using assms(2) by (auto simp: in_shard_def shardIndexByKey_def Let_def nat_less_iff split: if_splits)
  from deleteGroups_ok [OF assms(1) this] assms(1)
  have "returns (fst (Sharded_MDel order ctx ks (c, bufs, w)))"
    "sharded_inv (snd (Sharded_MDel order ctx ks (c, bufs, w)))"
    by (auto simp: Sharded_MDel_def split: sum.splits)
  moreover have "preserves sharded_inv (Sharded_Scan ctx cursor count)"
    "preserves sharded_inv (Sharded_PScan ctx prefix cursor count)"
    unfolding Sharded_Scan_def Sharded_PScan_def
    by (rule all_keys.sharded_scan_ok keys_with_prefix.sharded_scan_ok)+
  ultimately show ?thesis by (intro conjI keyed_operations_ok)
qed

theorem operations_keep_the_shards_ready_witness:
  "sharded_inv (snd (Sharded_MDel [1, 0] ctx_Background
     [\<lparr>ck_Key = ''a'', ck_Capping = 60\<rparr>, \<lparr>ck_Key = ''bb'', ck_Capping = 60\<rparr>] (example_sharded, [], example_world (example_conn [] []))))"
  using operations_keep_the_shards_ready [OF example_sharded_inv, of "[1, 0]"
      "[\<lparr>ck_Key = ''a'', ck_Capping = 60\<rparr>, \<lparr>ck_Key = ''bb'', ck_Capping = 60\<rparr>]"]
  by (simp add: in_shard_def shardIndexByKey_def example_sharded_def Let_def)

text \<open>C17: A sharded scan loses no position: its page is the concatenation of the pages of the shards it
  walked through, each asked at the position where the one before ended and for the keys still missing; it
  ends when a shard has more, when there are enough keys, or after the last shard. The cursor it
  returns is that of the position reached: the next scan parses it back to that position, and after the
  last shard it is the initial cursor.\<close>

theorem scan_walks_the_shards:
  assumes "sharded_scan cursor count scanShard (c, s) = (Ok result, s')" and "count \<noteq> 0"
    and "parseScanCursor c cursor = Inr pos" and "length (shards c) < 2 ^ 63"
  shows "\<exists>pages i cur. scan_walk scanShard c count pos 0 pages \<and> foldl advance pos pages = (i, cur) \<and>
    sr_Keys result = concat (map sr_Keys pages) \<and>
    (pages \<noteq> [] \<and> sr_Cursor (last pages) \<noteq> ScanCursorInitial \<or> unat count \<le> length (sr_Keys result) \<or> length (shards c) \<le> i) \<and>
    (i < length (shards c) \<and> cur \<noteq> '''' \<longrightarrow> parseScanCursor c (sr_Cursor result) = Inr (i, cur)) \<and>
    (length (shards c) \<le> i \<longrightarrow> sr_Cursor result = ScanCursorInitial)"
proof -
  obtain i0 cur0 where pos: "pos = (i0, cur0)" by (cases pos)
  from assms(1-3) have loop: "scanLoop scanShard count i0 cur0 [] (c, s) = (Ok result, s')"
    by (simp add: sharded_scan_def pos)
  have start: "cur0 = ScanCursorInitial \<or> i0 < length (shards c) \<and> length ([] :: ScanKey list) < unat count"
    using assms(2,3) pos
    by (auto simp: parseScanCursor_def Let_def nat_less_iff unat_gt_0 split: if_splits option.splits)
  from scanLoop_walk [OF loop start] obtain pages where
    pages: "scan_walk scanShard c count pos 0 pages" "sr_Keys result = concat (map sr_Keys pages)"
      "sr_Cursor result = (case foldl advance pos pages of (i', cur') \<Rightarrow> makeScanCursor c i' cur')"
      "pages \<noteq> [] \<and> sr_Cursor (last pages) \<noteq> ScanCursorInitial \<or> unat count \<le> length (sr_Keys result) \<or>
       length (shards c) \<le> fst (foldl advance pos pages)"
    unfolding pos by auto
  obtain i cur where reached: "foldl advance pos pages = (i, cur)" by (metis surj_pair)
  with pages parse_made_cursor [OF assms(4), of i cur] show ?thesis
    by (intro exI [of _ pages] exI [of _ i] exI [of _ cur]) (auto simp: makeScanCursor_def)
qed
text \<open>Two shards with a connection each, and the responses that arrive on them.\<close>

definition two_shards :: ShardedClient where
  "two_shards = \<lparr>shards = map (\<lambda>fd. example_cl [Some ((example_client 64)\<lparr>connection := Some fd\<rparr>)] 1) [0, 1],
     shardingFunc = (\<lambda>key n. int (length key) mod n)\<rparr>"

definition two_servers :: "bytes \<Rightarrow> bytes \<Rightarrow> world" where
  "two_servers m0 m1 = (example_world (example_conn [] []))\<lparr>nconns := 2,
     conns := (\<lambda>fd. example_conn (arriving 7 (frame (if fd = 0 then m0 else m1))) [])\<rparr>"

lemma two_servers_simps [simp]:
  "now (two_servers m0 m1) = 0" "conns (two_servers m0 m1) fd = example_conn (arriving 7 (frame (if fd = 0 then m0 else m1))) []"
  by (simp_all add: two_servers_def)

lemma responsive_shard:
  assumes "0 \<le> now w" "conns w fd = example_conn (arriving 7 (frame m)) []" "length request \<le> 64" "length m \<le> 64"
  shows "responsive ((example_client 64)\<lparr>connection := Some fd\<rparr>) fd ctx_Background request w (arriving 7 (frame m)) m []"
  using assms by (simp add: responsive_def tcp_wf_def TCPClient_deadline_def ctx_Background_def
    example_client_def bytesPool_clean_def Let_def)

lemma onShard_answered:
  assumes "answers ctx_Background oper request m r" and "i < length (shards c)"
    and "shards c ! i = example_cl [Some ((example_client 64)\<lparr>connection := Some fd\<rparr>)] 1"
    and "BytesBufferPool_clean bufs" "0 \<le> now w" "conns w fd = example_conn (arriving 7 (frame m)) []"
    and "length request \<le> 64" "length m \<le> 64"
  shows "\<exists>cl' bufs' w'. onShard i oper (c, bufs, w) = (r, (c\<lparr>shards := (shards c)[i := cl']\<rparr>, bufs', w')) \<and>
    BytesBufferPool_clean bufs' \<and> 0 \<le> now w' \<and> (\<forall>fd'. fd' \<noteq> fd \<longrightarrow> conns w' fd' = conns w fd')"
proof -
  let ?cl = "example_cl [Some ((example_client 64)\<lparr>connection := Some fd\<rparr>)] 1"
  obtain c' cl' bufs' w' where run: "oper (?cl, bufs, w) = (r, (cl', bufs', w'))"
    "now w' = arrival (now w) (arriving 7 (frame m))" "\<forall>fd'. fd' \<noteq> fd \<longrightarrow> conns w' fd' = conns w fd'"
    "BytesBufferPool_clean bufs'"
    using answersD [OF assms(1) example_single_connection assms(4) responsive_shard [OF assms(5-8)]] by metis
  have "0 \<le> now w'" using assms(5) run(2) arrival_bounds [of "now w"] by (metis order_trans)
  with run assms(2,3) show ?thesis by (auto simp: onShard_def)
qed

lemma MDel_answers:
  assumes "vs \<noteq> []"
  shows "answers ctx (Client_MDel ctx ks) (writeMultiCommand [] CommandMDel ks)
    (ok_response (map FormatUint vs)) (Ok (map (\<lambda>v. v = 1) vs))"
  unfolding Client_MDel_def
  by (rule command_answers) (use assms in \<open>simp_all add: finish_def parsed_wire valuesToBools_def\<close>)


lemma Scan_answers:
  assumes "multiDataDelimiter \<notin> set (sr_Cursor page)" "list_all (\<lambda>k. multiDataDelimiter \<notin> set (sk_Key k)) (sr_Keys page)"
  shows "answers ctx (Client_Scan ctx cursor count) (writeScanCommand [] cursor count) (ok_response (scan_wire page)) (Ok page)"
  unfolding Client_Scan_def scan_def
  by (rule command_answers) (use assms in \<open>simp_all add: finish_def parsed_wire\<close>)

text \<open>The second shard has more: the page ends there, and the cursor leads back to it.\<close>

theorem scan_walks_the_shards_witness:
  "\<exists>result pages. fst (Sharded_Scan ctx_Background ''1:0'' 2 (two_shards, [], two_servers '''' ''ok|9;k;60'')) = Ok result \<and>
     sr_Keys result = [\<lparr>sk_Key = ''k'', sk_Window = 60\<rparr>] \<and>
     scan_walk (Client_Scan ctx_Background) two_shards 2 (1, ''0'') 0 pages \<and> concat (map sr_Keys pages) = sr_Keys result"
proof -
  let ?page = "\<lparr>sr_Cursor = ''9'', sr_Keys = [\<lparr>sk_Key = ''k'', sk_Window = (60 :: uint32)\<rparr>]\<rparr>"
  let ?s = "([], two_servers '''' ''ok|9;k;60'')"
  have m: "''ok|9;k;60'' = ok_response (scan_wire ?page)" and len: "length (writeScanCommand [] ''0'' 2) \<le> 64" by code_simp+
  have "answers ctx_Background (Client_Scan ctx_Background ''0'' 2) (writeScanCommand [] ''0'' 2) ''ok|9;k;60'' (Ok ?page)"
    unfolding m by (rule Scan_answers) (simp_all add: multiDataDelimiter_def)
  then have "\<exists>cl bufs w. onShard 1 (Client_Scan ctx_Background ''0'' 2) (two_shards, ?s) =
      (Ok ?page, (two_shards\<lparr>shards := (shards two_shards)[1 := cl]\<rparr>, bufs, w)) \<and>
      BytesBufferPool_clean bufs \<and> 0 \<le> now w \<and> (\<forall>fd'. fd' \<noteq> 1 \<longrightarrow> conns w fd' = conns (snd ?s) fd')"
    by (simp only: snd_conv, intro onShard_answered [where fd = 1 and m = "''ok|9;k;60''"])
      (use len in \<open>simp_all add: two_shards_def BytesBufferPool_clean_def\<close>)
  then obtain cl s' where one: "onShard 1 (Client_Scan ctx_Background ''0'' 2) (two_shards, ?s) =
      (Ok ?page, (two_shards\<lparr>shards := (shards two_shards)[1 := cl]\<rparr>, s'))" by blast
  have pos: "parseScanCursor two_shards ''1:0'' = Inr (1, ''0'')"
    unfolding two_shards_def by code_simp
  have n: "length (shards two_shards) = 2" by (simp add: two_shards_def)
  obtain result t where run: "sharded_scan ''1:0'' 2 (Client_Scan ctx_Background) (two_shards, ?s) = (Ok result, t)"
    "sr_Keys result = sr_Keys ?page"
    using one n pos by (auto simp: sharded_scan_def scanLoop.simps [of _ _ "Suc 0"] ScanCursorInitial_def)
  from scan_walks_the_shards [OF run(1) _ pos] n obtain pages where
    "scan_walk (Client_Scan ctx_Background) two_shards 2 (1, ''0'') 0 pages" "sr_Keys result = concat (map sr_Keys pages)"
    by auto
  with run show ?thesis by (auto simp: Sharded_Scan_def)
qed

end
