(* ===== verification/Shard_Lifecycle.thy ===== *)
theory Shard_Lifecycle
  imports Sharded_Client
begin

text \<open>
  Opening and closing a sharded client: \<^verbatim>\<open>NewSharded\<close> opens one client per address and closes the earlier
  ones when a later one fails; \<^verbatim>\<open>Close\<close> closes every shard.
\<close>

section \<open>Closing the shards\<close>

text \<open>The connections in the pool of a client.\<close>

definition pooled :: "Client \<Rightarrow> nat set" where
  "pooled cl = conn_fd ` set (cp_connections (client_pool cl))"

lemma Client_Close_result:
  assumes "client_inv (cl, bufs, w)" and "\<not> cp_closed (client_pool cl)"
  shows "\<exists>cl' w'. Client_Close (cl, bufs, w) = (Ok (), (cl', bufs, w')) \<and> nconns w' = nconns w \<and>
    cp_closed (client_pool cl') \<and> cp_chan_closed (client_pool cl') \<and> cp_wg (client_pool cl') = 0 \<and>
    (\<forall>fd. nc_closed (conns w' fd) \<longleftrightarrow> nc_closed (conns w fd) \<or> fd \<in> pooled cl)"
proof -
  have inv: "pool_inv (client_pool cl) w" "cp_wg (client_pool cl) = 0" using assms(1) by (auto simp: client_inv_def)
  then obtain w' where "closeAll (cp_connections (client_pool cl)) w = (Ok (), w')" "nconns w' = nconns w"
    "\<forall>fd. nc_closed (conns w' fd) \<longleftrightarrow> nc_closed (conns w fd) \<or> fd \<in> pooled cl"
    using closeAll_result [of w "cp_connections (client_pool cl)"] by (auto simp: pool_inv_def pooled_def)
  with inv assms(2) show ?thesis
    by (auto simp: Client_Close_def ConnectionPool_Close_def pool_inv_def Let_def)
qed

lemma closeShards_result:
  assumes "\<forall>cl \<in> set cls. client_inv (cl, bufs, w) \<and> \<not> cp_closed (client_pool cl)"
  shows "\<exists>cls' w'. closeShards cls (bufs, w) = ((Ok (), cls'), (bufs, w')) \<and> length cls' = length cls \<and>
    nconns w' = nconns w \<and>
    (\<forall>cl \<in> set cls'. cp_closed (client_pool cl) \<and> cp_chan_closed (client_pool cl) \<and> cp_wg (client_pool cl) = 0) \<and>
    (\<forall>fd. nc_closed (conns w' fd) \<longleftrightarrow> nc_closed (conns w fd) \<or> (\<exists>cl \<in> set cls. fd \<in> pooled cl))"
  using assms
proof (induction cls arbitrary: w)
  case (Cons cl cls)
  then have "client_inv (cl, bufs, w)" "\<not> cp_closed (client_pool cl)" by auto
  from Client_Close_result [OF this] obtain cl' w1 where c:
    "Client_Close (cl, bufs, w) = (Ok (), (cl', bufs, w1))" "nconns w1 = nconns w"
    "cp_closed (client_pool cl')" "cp_chan_closed (client_pool cl')" "cp_wg (client_pool cl') = 0"
    "\<forall>fd. nc_closed (conns w1 fd) \<longleftrightarrow> nc_closed (conns w fd) \<or> fd \<in> pooled cl" by blast
  have "BytesBufferPool_clean bufs" using Cons.prems by (auto simp: client_inv_def)
  then have "\<forall>cl \<in> set cls. client_inv (cl, bufs, w1) \<and> \<not> cp_closed (client_pool cl)"
    using Cons.prems c(2) by (auto intro: client_inv_mono)
  from Cons.IH [OF this] c show ?case by auto
qed simp

text \<open>An operation that fails without an effect: because the pool of its shard is closed, or no shard is named.\<close>

definition refused :: "ShardedClient \<Rightarrow> world \<Rightarrow> (sharded_state, 'a) io \<Rightarrow> bool" where
  "refused c w oper \<longleftrightarrow>
     (\<forall>bufs. \<exists>e bufs'. oper (c, bufs, w) = (Err e, (c, bufs', w)) \<and>
        (errors_Is e ErrConnPoolClosed \<or> errors_Is e ErrShardIndexOutOfRange))"

lemma closed_client:
  "cp_closed (client_pool cl) \<Longrightarrow> \<exists>bufs'. withCommand wr (exchange parse f zero ctx) (cl, bufs, w) =
     (Err (Errorf ''get connection: %w'' [W (Sentinel ErrConnPoolClosed)]), (cl, bufs', w))"
  by (simp add: withCommand_def withCommandH_def exchange_def withConnection_def withConnectionH_def GetConnection_def
    split: prod.splits)

lemma closed_shards_refuse:
  assumes "\<forall>cl \<in> set (shards c). cp_closed (client_pool cl)"
  shows "refused c w (onShardByKey key (withCommand wr (exchange parse f zero ctx)))"
  unfolding refused_def
proof
  fix bufs
  show "\<exists>e bufs'. onShardByKey key (withCommand wr (exchange parse f zero ctx)) (c, bufs, w) = (Err e, (c, bufs', w)) \<and>
      (errors_Is e ErrConnPoolClosed \<or> errors_Is e ErrShardIndexOutOfRange)"
  proof (cases "shardIndexByKey c key")
    case (Inl e)
    then show ?thesis by (auto simp: onShardByKey_def shardIndexByKey_def Let_def split: if_splits)
  next
    case (Inr i)
    then have i: "i < length (shards c)"
      by (auto simp: shardIndexByKey_def Let_def nat_less_iff split: if_splits)
    with assms closed_client [of "shards c ! i" wr parse f zero ctx bufs w] obtain bufs' where
      "withCommand wr (exchange parse f zero ctx) (shards c ! i, bufs, w) =
        (Err (Errorf ''get connection: %w'' [W (Sentinel ErrConnPoolClosed)]), (shards c ! i, bufs', w))" by auto
    with Inr i show ?thesis by (simp add: onShardByKey_def onShard_def)
  qed
qed

lemma keyed_operations_refused:
  assumes "\<forall>cl \<in> set (shards c). cp_closed (client_pool cl)"
  shows "refused c w (Sharded_Incr ctx key)" "refused c w (Sharded_Get ctx key)" "refused c w (Sharded_Watch ctx key)"
    "refused c w (Sharded_Del ctx key)" "refused c w (Sharded_RLimitFixedWindow ctx lkey n)"
    "refused c w (Sharded_RLimitSlidingWindow ctx lkey n)" "refused c w (Sharded_RLimitTokenBucket ctx lkey n k)"
    "refused c w (Sharded_QuotaAcquire ctx name n cid ttl)" "refused c w (Sharded_QuotaAcquireLease ctx name n k cid ttl)"
    "refused c w (Sharded_QuotaAcquireN ctx name cid ttl)" "refused c w (Sharded_QuotaSet ctx name n)"
    "refused c w (Sharded_QuotaSetN ctx name n k)" "refused c w (Sharded_QuotaRelease ctx name cid)"
    "refused c w (Sharded_QuotaDelete ctx name)" "refused c w (Sharded_QuotaInfo ctx name)"
  unfolding sharded_defs operation_defs by (rule closed_shards_refuse [OF assms])+

text \<open>C33: Closing a sharded client whose shards are open and idle returns, and closes exactly the connections in
  the pools of its shards; from then on every operation on a key fails, without an effect on the client or
  the network, with an error that is \<^verbatim>\<open>ErrConnPoolClosed\<close>, or the index error if the sharding function names
  no shard. Closing it a second time panics.\<close>

theorem ShardedClient_Close_closes_the_shards:
  assumes "sharded_inv (c, bufs, w)" and "\<forall>cl \<in> set (shards c). \<not> cp_closed (client_pool cl)"
  shows "\<exists>c' w'. ShardedClient_Close (c, bufs, w) = (Ok (), (c', bufs, w')) \<and> ShardCount c' = ShardCount c \<and>
    (\<forall>fd. nc_closed (conns w' fd) \<longleftrightarrow> nc_closed (conns w fd) \<or> (\<exists>cl \<in> set (shards c). fd \<in> pooled cl)) \<and>
    (\<forall>ctx key lkey n k name cid ttl.
      refused c' w' (Sharded_Incr ctx key) \<and> refused c' w' (Sharded_Get ctx key) \<and>
      refused c' w' (Sharded_Watch ctx key) \<and> refused c' w' (Sharded_Del ctx key) \<and>
      refused c' w' (Sharded_RLimitFixedWindow ctx lkey n) \<and> refused c' w' (Sharded_RLimitSlidingWindow ctx lkey n) \<and>
      refused c' w' (Sharded_RLimitTokenBucket ctx lkey n k) \<and> refused c' w' (Sharded_QuotaAcquire ctx name n cid ttl) \<and>
      refused c' w' (Sharded_QuotaAcquireLease ctx name n k cid ttl) \<and>
      refused c' w' (Sharded_QuotaAcquireN ctx name cid ttl) \<and> refused c' w' (Sharded_QuotaSet ctx name n) \<and>
      refused c' w' (Sharded_QuotaSetN ctx name n k) \<and> refused c' w' (Sharded_QuotaRelease ctx name cid) \<and>
      refused c' w' (Sharded_QuotaDelete ctx name) \<and> refused c' w' (Sharded_QuotaInfo ctx name)) \<and>
    fst (ShardedClient_Close (c', bufs, w')) = Panic ''close of closed channel''"
proof -
  have "\<forall>cl \<in> set (shards c). client_inv (cl, bufs, w) \<and> \<not> cp_closed (client_pool cl)"
    using assms by (auto simp: sharded_inv_def in_set_conv_nth)
  from closeShards_result [OF this] obtain cls' w' where cls: "closeShards (shards c) (bufs, w) = ((Ok (), cls'), (bufs, w'))"
    "length cls' = length (shards c)"
    "\<forall>cl \<in> set cls'. cp_closed (client_pool cl) \<and> cp_chan_closed (client_pool cl) \<and> cp_wg (client_pool cl) = 0"
    "\<forall>fd. nc_closed (conns w' fd) \<longleftrightarrow> nc_closed (conns w fd) \<or> (\<exists>cl \<in> set (shards c). fd \<in> pooled cl)" by blast
  let ?c = "c\<lparr>shards := cls'\<rparr>"
  have "\<forall>cl \<in> set (shards ?c). cp_closed (client_pool cl)" using cls(3) by simp
  note refuse = keyed_operations_refused [OF this]
  obtain cl cls where "cls' = cl # cls" using assms(1) cls(2) by (cases cls') (auto simp: sharded_inv_def)
  then have "fst (ShardedClient_Close (?c, bufs, w')) = Panic ''close of closed channel''"
    using cls(3) by (simp add: ShardedClient_Close_def Client_Close_def ConnectionPool_Close_def Let_def)
  with cls refuse show ?thesis
    by (intro exI [of _ ?c] exI [of _ w']) (simp add: ShardedClient_Close_def ShardCount_def)
qed

theorem ShardedClient_Close_closes_the_shards_witness:
  "\<exists>c' w'. ShardedClient_Close (example_sharded, [], example_world (example_conn [] [])) = (Ok (), (c', [], w')) \<and>
     nc_closed (conns w' 0) \<and> \<not> nc_closed (conns w' 1)"
proof -
  have "\<forall>cl \<in> set (shards example_sharded). \<not> cp_closed (client_pool cl) \<and> pooled cl = {0}"
    "shards example_sharded \<noteq> []"
    by (auto simp: example_sharded_def example_cl_def pooled_def conn_fd_def)
  with ShardedClient_Close_closes_the_shards [OF example_sharded_inv [of "example_conn [] []"]] show ?thesis
    by (fastforce simp: neq_Nil_conv)
qed

section \<open>Opening the shards\<close>

text \<open>
  One client per address, the connections of their pools numbered one after the other from \<open>n\<close>.
\<close>

definition shards_opened :: "int \<Rightarrow> int \<Rightarrow> Option list \<Rightarrow> nat \<Rightarrow> string list \<Rightarrow> Client list \<Rightarrow> bool" where
  "shards_opened idle poolSize opts n addrs cls \<longleftrightarrow>
     length cls = length addrs \<and>
     (\<forall>i < length addrs. opened_as (addrs ! i) idle poolSize opts (n + i * nat poolSize) (cls ! i))"

lemma opened_pooled: "opened_as addr idle poolSize opts n cl \<Longrightarrow> pooled cl = {n..<n + nat poolSize}"
  unfolding opened_as_def pooled_def by (metis atLeastLessThan_upt list.set_map)

lemma shards_opened_pooled:
  assumes "shards_opened idle poolSize opts n addrs cls" and "0 < poolSize"
  shows "(\<exists>cl \<in> set cls. fd \<in> pooled cl) \<longleftrightarrow> n \<le> fd \<and> fd < n + length addrs * nat poolSize"
proof -
  let ?k = "nat poolSize"
  have block: "(\<exists>cl \<in> set cls. fd \<in> pooled cl) \<longleftrightarrow> (\<exists>i < length addrs. n + i * ?k \<le> fd \<and> fd < n + i * ?k + ?k)"
  proof -
    have "pooled (cls ! i) = {n + i * ?k..<n + i * ?k + ?k}" if "i < length addrs" for i
      using assms(1) that
      by (intro opened_pooled [where addr = "addrs ! i" and idle = idle and opts = opts]) (simp add: shards_opened_def)
    moreover have "length cls = length addrs" using assms(1) by (simp add: shards_opened_def)
    ultimately show ?thesis by (metis atLeastLessThan_iff in_set_conv_nth)
  qed
  have "n \<le> fd \<and> fd < n + length addrs * ?k" if "i < length addrs" "n + i * ?k \<le> fd" "fd < n + i * ?k + ?k" for i
  proof -
    have "Suc i * ?k \<le> length addrs * ?k" using that(1) by (intro mult_le_mono1) simp
    with that show ?thesis by simp
  qed
  moreover have "\<exists>i < length addrs. n + i * ?k \<le> fd \<and> fd < n + i * ?k + ?k" if "n \<le> fd" "fd < n + length addrs * ?k"
  proof (intro exI [of _ "(fd - n) div ?k"] conjI)
    have "fd - n < length addrs * ?k" using that by simp
    then show "(fd - n) div ?k < length addrs" using assms(2) by (simp add: less_mult_imp_div_less)
    have "(fd - n) div ?k * ?k + (fd - n) mod ?k = fd - n" "(fd - n) mod ?k < ?k" using assms(2) by simp_all
    then show "n + (fd - n) div ?k * ?k \<le> fd" "fd < n + (fd - n) div ?k * ?k + ?k" using that(1) by linarith+
  qed
  ultimately show ?thesis unfolding block by blast
qed

lemma shards_opened_snoc:
  "shards_opened idle poolSize opts n addrs cls \<Longrightarrow> opened_as addr idle poolSize opts (n + length addrs * nat poolSize) cl \<Longrightarrow>
     shards_opened idle poolSize opts n (addrs @ [addr]) (cls @ [cl])"
  by (auto simp: shards_opened_def nth_append less_Suc_eq)

text \<open>What opening the shards from number \<open>n\<close> on leads to.\<close>

definition shards_outcome ::
  "int \<Rightarrow> int \<Rightarrow> Option list \<Rightarrow> string list \<Rightarrow> BytesBufferPool \<Rightarrow> nat \<Rightarrow> Client list res \<Rightarrow> world \<Rightarrow> bool"
where
  "shards_outcome idle poolSize opts addrs bufs n r w \<longleftrightarrow>
     (case r of
        Ok cls \<Rightarrow> shards_opened idle poolSize opts n addrs cls \<and> (\<forall>cl \<in> set cls. client_inv (cl, bufs, w)) \<and>
          nconns w = n + length addrs * nat poolSize \<and> (\<forall>fd. n \<le> fd \<and> fd < nconns w \<longrightarrow> \<not> nc_closed (conns w fd))
      | Err e \<Rightarrow> (\<exists>i < length addrs. \<exists>err. e = Errorf ''create shard %q: %w'' [Q (addrs ! i), W err] \<and>
          (\<forall>fd. n \<le> fd \<and> fd < n + i * nat poolSize \<longrightarrow> nc_closed (conns w fd)) \<and>
          (\<forall>fd. n + i * nat poolSize \<le> fd \<and> Suc fd < nconns w \<longrightarrow> \<not> nc_closed (conns w fd)))
      | _ \<Rightarrow> False)"

lemma newShards_result:
  assumes "0 < poolSize" and "shards_outcome idle poolSize opts opened bufs n (Ok cls) w"
    and "BytesBufferPool_clean bufs" and "newShards addrs idle poolSize opts cls (bufs, w) = (r, (bufs', w'))"
  shows "bufs' = bufs \<and> shards_outcome idle poolSize opts (opened @ addrs) bufs n r w' \<and>
    (\<forall>fd < n. nc_closed (conns w' fd) \<longleftrightarrow> nc_closed (conns w fd))"
  using assms(2,4)
proof (induction addrs arbitrary: opened cls w)
  case Nil
  then show ?case by auto
next
  case (Cons addr addrs)
  let ?k = "nat poolSize"
  obtain q w1 where q: "New addr idle poolSize opts w = (q, w1)" by force
  note new = New_result [OF assms(1) q]
  have cls: "shards_opened idle poolSize opts n opened cls" "\<forall>cl \<in> set cls. client_inv (cl, bufs, w)"
    "nconns w = n + length opened * ?k" "\<forall>fd. n \<le> fd \<and> fd < nconns w \<longrightarrow> \<not> nc_closed (conns w fd)"
    using Cons.prems(1) by (auto simp: shards_outcome_def)
  have ready: "\<forall>cl \<in> set cls. client_inv (cl, bufs, w1)" using cls(2) new(3) assms(3) client_inv_mono by blast
  show ?case
  proof (cases q)
    case (Ok cl)
    with new(5) have cl: "client_inv (cl, [], w1)" "opened_as addr idle poolSize opts (nconns w) cl"
      "nconns w1 = nconns w + ?k" "\<forall>fd. nconns w \<le> fd \<and> fd < nconns w1 \<longrightarrow> \<not> nc_closed (conns w1 fd)" by auto
    have "\<not> nc_closed (conns w1 fd)" if "n \<le> fd" "fd < nconns w1" for fd
      using that cls(4) cl(4) new(2) by (cases "fd < nconns w") auto
    moreover have "client_inv (cl, bufs, w1)" using client_inv_mono [OF cl(1) _ assms(3)] by blast
    ultimately have "shards_outcome idle poolSize opts (opened @ [addr]) bufs n (Ok (cls @ [cl])) w1"
      using shards_opened_snoc [OF cls(1), of addr cl] cl cls(3) ready by (auto simp: shards_outcome_def)
    moreover have "newShards addrs idle poolSize opts (cls @ [cl]) (bufs, w1) = (r, (bufs', w'))"
      using Cons.prems(2) q Ok by simp
    ultimately show ?thesis using Cons.IH [of "opened @ [addr]" "cls @ [cl]" w1] new(2) cls(3) by auto
  next
    case (Err err)
    have "\<forall>cl \<in> set cls. client_inv (cl, bufs, w1) \<and> \<not> cp_closed (client_pool cl)"
      using ready cls(1) by (auto simp: shards_opened_def opened_as_def in_set_conv_nth)
    from closeShards_result [OF this] obtain cls' w2 where c: "closeShards cls (bufs, w1) = ((Ok (), cls'), (bufs, w2))"
      "nconns w2 = nconns w1"
      "\<forall>fd. nc_closed (conns w2 fd) \<longleftrightarrow> nc_closed (conns w1 fd) \<or> (\<exists>cl \<in> set cls. fd \<in> pooled cl)" by blast
    have r: "r = Err (Errorf ''create shard %q: %w'' [Q addr, W err])" "bufs' = bufs" "w' = w2"
      using Cons.prems(2) q Err c(1) by (auto simp: io_simps throw_def)
    note closed = c(3) [unfolded shards_opened_pooled [OF cls(1) assms(1)]]
    have "\<not> nc_closed (conns w2 fd)" if "nconns w \<le> fd" "Suc fd < nconns w2" for fd
      using closed that new(4) c(2) cls(3) by auto
    moreover have "nc_closed (conns w2 fd)" if "n \<le> fd" "fd < nconns w" for fd
      using closed that cls(3) by auto
    moreover have "nc_closed (conns w2 fd) \<longleftrightarrow> nc_closed (conns w fd)" if "fd < n" for fd
      using closed that new(2) cls(3) by auto
    ultimately show ?thesis
      using r cls(3) by (auto simp: shards_outcome_def intro!: exI [of _ "length opened"])
  qed (use new(1) in auto)
qed

text \<open>C19: With a positive pool size, \<^verbatim>\<open>NewSharded\<close> returns. Without addresses or without a sharding function it
  returns the error for that and does nothing. Otherwise it returns a sharded client that is ready,
  with one shard per address in the order of the addresses, each with its own open connections, as many as asked
  for; or the error of the first shard that cannot be opened, wrapped with its address, after the connections of
  all shards opened before have been closed. The connections that the failing shard itself had opened
  before the last one stay open.\<close>

theorem NewSharded_opens_all_or_closes:
  assumes "0 < poolSize" and "BytesBufferPool_clean bufs"
    and "NewSharded addrs idle poolSize sharding opts (bufs, w) = (r, (bufs', w'))"
  shows "(addrs = [] \<longrightarrow> r = Err (Sentinel ErrNoShards) \<and> w' = w) \<and>
    (addrs \<noteq> [] \<and> sharding = None \<longrightarrow> r = Err (Sentinel ErrNilShardingFunc) \<and> w' = w) \<and>
    (addrs \<noteq> [] \<and> sharding \<noteq> None \<longrightarrow>
      (\<exists>c. r = Ok c \<and> sharded_inv (c, bufs', w') \<and> Some (shardingFunc c) = sharding \<and>
        shards_opened idle poolSize opts (nconns w) addrs (shards c) \<and>
        (\<forall>fd. nconns w \<le> fd \<and> fd < nconns w' \<longrightarrow> \<not> nc_closed (conns w' fd))) \<or>
      (\<exists>i < length addrs. \<exists>err. r = Err (Errorf ''create shard %q: %w'' [Q (addrs ! i), W err]) \<and>
        (\<forall>fd. nconns w \<le> fd \<and> fd < nconns w + i * nat poolSize \<longrightarrow> nc_closed (conns w' fd)) \<and>
        (\<forall>fd. nconns w + i * nat poolSize \<le> fd \<and> Suc fd < nconns w' \<longrightarrow> \<not> nc_closed (conns w' fd)))) \<and>
    (\<forall>fd < nconns w. nc_closed (conns w' fd) \<longleftrightarrow> nc_closed (conns w fd))"
proof (cases "addrs = [] \<or> sharding = None")
  case True
  with assms(3) show ?thesis by (auto simp: NewSharded_def throw_def split: if_splits)
next
  case False
  then obtain f where f: "sharding = Some f" by blast
  obtain q bufs1 w1 where q: "newShards addrs idle poolSize opts [] (bufs, w) = (q, (bufs1, w1))" by (metis prod_cases3)
  have "shards_outcome idle poolSize opts [] bufs (nconns w) (Ok []) w" by (auto simp: shards_outcome_def shards_opened_def)
  from newShards_result [OF assms(1) this assms(2) q]
  have out: "bufs1 = bufs" "shards_outcome idle poolSize opts addrs bufs (nconns w) q w1"
    "\<forall>fd < nconns w. nc_closed (conns w1 fd) \<longleftrightarrow> nc_closed (conns w fd)" by auto
  show ?thesis
  proof (cases q)
    case (Ok cls)
    with assms(3) q f False have r: "r = Ok \<lparr>shards = cls, shardingFunc = f\<rparr>" "bufs' = bufs1" "w' = w1"
      by (auto simp: NewSharded_def io_simps)
    with Ok out False have "sharded_inv (\<lparr>shards = cls, shardingFunc = f\<rparr>, bufs', w')"
      by (auto simp: sharded_inv_def shards_outcome_def shards_opened_def)
    with r Ok out f False show ?thesis by (auto simp: shards_outcome_def)
  next
    case (Err e)
    with assms(3) q f False have "r = Err e" "w' = w1" by (auto simp: NewSharded_def io_simps)
    with Err out f False show ?thesis by (auto simp: shards_outcome_def)
  qed (use out in \<open>auto simp: shards_outcome_def\<close>)
qed

theorem NewSharded_opens_all_or_closes_witness:
  "\<exists>e bufs' w'. NewSharded [''a:1945'', ''b:1945''] 60 1 (Some (\<lambda>key n. int (length key) mod n)) [] ([], example_server) =
     (Err (Errorf ''create shard %q: %w'' [Q ''b:1945'', W e]), (bufs', w')) \<and> nc_closed (conns w' 0)"
proof -
  let ?run = "NewSharded [''a:1945'', ''b:1945''] 60 1 (Some (\<lambda>key n. int (length key) mod n)) [] ([], example_server)"
  obtain c1 w1 where n1: "NewTCPClient ''a:1945'' 4096 60 [] example_server = (Ok c1, w1)" "dials w1 = []"
    using example_answered [of example_server "[]" "''a:1945''"] by (auto simp: example_server_def)
  then obtain cl where a: "New ''a:1945'' 60 1 [] example_server = (Ok cl, w1)"
    by (auto simp: New_def NewConnectionPool_def GetConnection_def ReleaseConnection_def bindR_def wg_Add_def wg_Done_def Let_def)
  obtain e w2 where "NewTCPClient ''b:1945'' 4096 60 [] w1 = (Err e, w2)" using example_refused [OF n1(2)] by blast
  then obtain e' where b: "New ''b:1945'' 60 1 [] w1 = (Err e', w2)"
    by (auto simp: New_def NewConnectionPool_def GetConnection_def bindR_def wg_Add_def wg_Done_def Let_def)
  have "client_inv (cl, [], w2)" "\<not> cp_closed (client_pool cl)"
    using New_result(5) [OF _ a] New_result(3) [OF _ b] client_inv_mono [of cl "[]" w1 w2 "[]"]
    by (auto simp: opened_as_def BytesBufferPool_clean_def)
  then obtain cls w3 where "closeShards [cl] ([], w2) = ((Ok (), cls), ([], w3))"
    using closeShards_result [of "[cl]" "[]" w2] by auto
  with a b have r: "?run = (Err (Errorf ''create shard %q: %w'' [Q ''b:1945'', W e']), ([], w3))"
    by (simp add: NewSharded_def io_simps throw_def)
  with NewSharded_opens_all_or_closes [OF _ _ r] show ?thesis
    by (auto simp: BytesBufferPool_clean_def less_Suc_eq example_server_def)
qed

end
