(* ===== verification/Pool_Concurrency.thy ===== *)
theory Pool_Concurrency
  imports Conn_Pool "HOL-Library.Multiset"
begin

text \<open>
  The connection pool (\<^verbatim>\<open>conn_pool.go\<close>) under concurrency: any number of goroutines that take and return
  connections while another one closes the pool. Every atomic action of \<^verbatim>\<open>GetConnection\<close>,
  \<^verbatim>\<open>ReleaseConnection\<close> and \<^verbatim>\<open>Close\<close> (a load or store of the flag, an operation on the channel, one on the wait
  group, the end of a dial) is a step, and steps of different goroutines interleave in every order.
  Connections are numbered in the order of dialing.
\<close>

subsection \<open>States\<close>

datatype panic = SendOnClosedChannel | NilConnection | NegativeWaitGroup

text \<open>Where a goroutine is, with the connection it has in its hands.\<close>

datatype pc =
    Idle                    \<comment> \<open>outside of the pool's methods, without a connection\<close>
  | Loaded                  \<comment> \<open>\<^verbatim>\<open>GetConnection\<close> found the flag unset, before \<^verbatim>\<open>select\<close>\<close>
  | Received "nat option"   \<comment> \<open>received from the channel, before \<^verbatim>\<open>wg.Add(1)\<close>; \<open>None\<close> is nil\<close>
  | Missed                  \<comment> \<open>in the default branch, before \<^verbatim>\<open>wg.Add(1)\<close>\<close>
  | Dialing                 \<comment> \<open>in \<^verbatim>\<open>newConn\<close>\<close>
  | DialFailed              \<comment> \<open>\<^verbatim>\<open>newConn\<close> failed, before \<^verbatim>\<open>wg.Done\<close>\<close>
  | Holding "nat option"    \<comment> \<open>\<^verbatim>\<open>GetConnection\<close> has returned a connection\<close>
  | Releasing nat           \<comment> \<open>\<^verbatim>\<open>ReleaseConnection\<close> found the flag unset, before or in the send\<close>
  | Sent                    \<comment> \<open>after the send, before \<^verbatim>\<open>wg.Done\<close>\<close>
  | Gone                    \<comment> \<open>the goroutine has ended\<close>
  | Crashed panic

datatype closer =
    NotClosing | Waiting | Waited | Stored | Draining | Finished

record shared_pool =
  chan :: "nat list"
  chan_cap :: nat
  chan_closed :: bool
  flag :: bool
  wg :: int
  dialed_conns :: nat
  shut :: "nat set"
  threads :: "pc list"
  closer :: closer

definition at :: "shared_pool \<Rightarrow> nat \<Rightarrow> pc \<Rightarrow> bool" where
  "at s i p \<longleftrightarrow> i < length (threads s) \<and> threads s ! i = p"

definition goto :: "nat \<Rightarrow> pc \<Rightarrow> shared_pool \<Rightarrow> shared_pool" where
  "goto i p s = s\<lparr>threads := (threads s)[i := p]\<rparr>"

text \<open>\<^verbatim>\<open>wg.Done()\<close>, which panics when the counter would become negative; the goroutine goes on to \<open>p\<close>.\<close>

definition wg_done :: "nat \<Rightarrow> pc \<Rightarrow> shared_pool \<Rightarrow> shared_pool" where
  "wg_done i p s = (if wg s < 1 then goto i (Crashed NegativeWaitGroup) s else goto i p (s\<lparr>wg := wg s - 1\<rparr>))"

subsection \<open>Steps\<close>

inductive get_step :: "nat \<Rightarrow> shared_pool \<Rightarrow> shared_pool \<Rightarrow> bool" for i where
  load_unset: "at s i Idle \<Longrightarrow> \<not> flag s \<Longrightarrow> get_step i s (goto i Loaded s)"
| load_set: "at s i Idle \<Longrightarrow> flag s \<Longrightarrow> get_step i s s"
| receive: "at s i Loaded \<Longrightarrow> chan s = c # cs \<Longrightarrow> get_step i s (goto i (Received (Some c)) (s\<lparr>chan := cs\<rparr>))"
| receive_handoff: "at s i Loaded \<Longrightarrow> chan_cap s = 0 \<Longrightarrow> \<not> chan_closed s \<Longrightarrow> at s j (Releasing c) \<Longrightarrow>
    get_step i s (goto i (Received (Some c)) (goto j Sent s))"
| receive_closed: "at s i Loaded \<Longrightarrow> chan s = [] \<Longrightarrow> chan_closed s \<Longrightarrow> get_step i s (goto i (Received None) s)"
| default_branch: "at s i Loaded \<Longrightarrow> chan s = [] \<Longrightarrow> \<not> chan_closed s \<Longrightarrow> get_step i s (goto i Missed s)"
| count_received: "at s i (Received conn) \<Longrightarrow> get_step i s (goto i (Holding conn) (s\<lparr>wg := wg s + 1\<rparr>))"
| count_dial: "at s i Missed \<Longrightarrow> get_step i s (goto i Dialing (s\<lparr>wg := wg s + 1\<rparr>))"
| dial_ok: "at s i Dialing \<Longrightarrow>
    get_step i s (goto i (Holding (Some (dialed_conns s))) (s\<lparr>dialed_conns := Suc (dialed_conns s)\<rparr>))"
| dial_failed: "at s i Dialing \<Longrightarrow> get_step i s (goto i DialFailed s)"
| uncount_dial: "at s i DialFailed \<Longrightarrow> get_step i s (wg_done i Idle s)"

inductive release_step :: "nat \<Rightarrow> shared_pool \<Rightarrow> shared_pool \<Rightarrow> bool" for i where
  release_load_set: "at s i (Holding (Some c)) \<Longrightarrow> flag s \<Longrightarrow> release_step i s (goto i Idle s)"
| release_load_unset: "at s i (Holding (Some c)) \<Longrightarrow> \<not> flag s \<Longrightarrow> release_step i s (goto i (Releasing c) s)"
| send: "at s i (Releasing c) \<Longrightarrow> \<not> chan_closed s \<Longrightarrow> length (chan s) < chan_cap s \<Longrightarrow>
    release_step i s (goto i Sent (s\<lparr>chan := chan s @ [c]\<rparr>))"
| send_closed: "at s i (Releasing c) \<Longrightarrow> chan_closed s \<Longrightarrow> release_step i s (goto i (Crashed SendOnClosedChannel) s)"
| uncount_release: "at s i Sent \<Longrightarrow> release_step i s (wg_done i Idle s)"

inductive close_step :: "shared_pool \<Rightarrow> shared_pool \<Rightarrow> bool" where
  call: "closer s = NotClosing \<Longrightarrow> close_step s (s\<lparr>closer := Waiting\<rparr>)"
| wait: "closer s = Waiting \<Longrightarrow> wg s = 0 \<Longrightarrow> close_step s (s\<lparr>closer := Waited\<rparr>)"
| store: "closer s = Waited \<Longrightarrow> close_step s (s\<lparr>closer := Stored, flag := True\<rparr>)"
| close_chan: "closer s = Stored \<Longrightarrow> close_step s (s\<lparr>closer := Draining, chan_closed := True\<rparr>)"
| close_conn: "closer s = Draining \<Longrightarrow> chan s = c # cs \<Longrightarrow> close_step s (s\<lparr>chan := cs, shut := insert c (shut s)\<rparr>)"
| drained: "closer s = Draining \<Longrightarrow> chan s = [] \<Longrightarrow> close_step s (s\<lparr>closer := Finished\<rparr>)"

text \<open>The callers: a goroutine ends without a connection in its hands, and one that was given nil panics when it uses it.\<close>

inductive caller_step :: "nat \<Rightarrow> shared_pool \<Rightarrow> shared_pool \<Rightarrow> bool" for i where
  ends: "at s i Idle \<Longrightarrow> caller_step i s (goto i Gone s)"
| uses_nil: "at s i (Holding None) \<Longrightarrow> caller_step i s (goto i (Crashed NilConnection) s)"

inductive pool_step :: "shared_pool \<Rightarrow> shared_pool \<Rightarrow> bool" where
  get: "get_step i s s' \<Longrightarrow> pool_step s s'"
| release: "release_step i s s' \<Longrightarrow> pool_step s s'"
| close: "close_step s s' \<Longrightarrow> pool_step s s'"
| caller: "caller_step i s s' \<Longrightarrow> pool_step s s'"

text \<open>A pool of capacity \<open>cap\<close> as \<^verbatim>\<open>New\<close> leaves it, with \<open>k\<close> connections, and \<open>n\<close> goroutines that use it.\<close>

definition fresh_pool :: "nat \<Rightarrow> nat \<Rightarrow> nat \<Rightarrow> shared_pool" where
  "fresh_pool n k cap = \<lparr>chan = [0..<k], chan_cap = cap, chan_closed = False, flag = False, wg = 0,
     dialed_conns = k, shut = {}, threads = replicate n Idle, closer = NotClosing\<rparr>"

inductive reachable :: "shared_pool \<Rightarrow> shared_pool \<Rightarrow> bool" for s0 where
  start: "reachable s0 s0"
| step: "reachable s0 s \<Longrightarrow> pool_step s s' \<Longrightarrow> reachable s0 s'"

lemmas pool_intros = get_step.intros release_step.intros close_step.intros caller_step.intros

subsection \<open>Counting\<close>

text \<open>The connections in a goroutine's hands, and whether the wait group counts it; one that panicked stays counted.\<close>

fun held :: "pc \<Rightarrow> nat list" where
  "held (Received (Some c)) = [c]"
| "held (Holding (Some c)) = [c]"
| "held (Releasing c) = [c]"
| "held _ = []"

fun counted :: "pc \<Rightarrow> int" where
  "counted Dialing = 1"
| "counted DialFailed = 1"
| "counted (Holding conn) = 1"
| "counted (Releasing c) = 1"
| "counted Sent = 1"
| "counted (Crashed e) = 1"
| "counted _ = 0"

text \<open>All connections of the pool, in the channel or in someone's hands, and the number of goroutines that are counted.\<close>

definition conns_of :: "shared_pool \<Rightarrow> nat multiset" where
  "conns_of s = mset (chan s) + sum_list (map (\<lambda>p. mset (held p)) (threads s))"

definition users :: "shared_pool \<Rightarrow> int" where
  "users s = sum_list (map counted (threads s))"

lemma goto_simps [simp]:
  "chan (goto i p s) = chan s" "chan_cap (goto i p s) = chan_cap s" "chan_closed (goto i p s) = chan_closed s"
  "flag (goto i p s) = flag s" "wg (goto i p s) = wg s" "dialed_conns (goto i p s) = dialed_conns s"
  "shut (goto i p s) = shut s" "closer (goto i p s) = closer s" "threads (goto i p s) = (threads s)[i := p]"
  by (simp_all add: goto_def)

lemma at_simps [simp]:
  "at (s\<lparr>chan := x1\<rparr>) i p = at s i p" "at (s\<lparr>wg := x2\<rparr>) i p = at s i p" "at (s\<lparr>dialed_conns := x3\<rparr>) i p = at s i p"
  "at (s\<lparr>flag := x4\<rparr>) i p = at s i p" "at (s\<lparr>closer := x5\<rparr>) i p = at s i p" "at (s\<lparr>chan_closed := x6\<rparr>) i p = at s i p"
  "at (s\<lparr>shut := x7\<rparr>) i p = at s i p"
  by (simp_all add: at_def)

lemma conns_of_goto: "at s i p \<Longrightarrow> conns_of (goto i q s) + mset (held p) = conns_of s + mset (held q)"
  using sum_list_map_update [of i "threads s" "\<lambda>p. mset (held p)" q] by (auto simp: at_def conns_of_def ac_simps)

lemma users_goto: "at s i p \<Longrightarrow> users (goto i q s) = users s + counted q - counted p"
  using sum_list_map_update [of i "threads s" counted q] by (auto simp: at_def users_def)

lemma conns_of_simps [simp]:
  "conns_of (s\<lparr>wg := x2\<rparr>) = conns_of s" "conns_of (s\<lparr>dialed_conns := x3\<rparr>) = conns_of s"
  "conns_of (s\<lparr>flag := x4\<rparr>) = conns_of s" "conns_of (s\<lparr>closer := x5\<rparr>) = conns_of s"
  "conns_of (s\<lparr>chan_closed := x6\<rparr>) = conns_of s" "conns_of (s\<lparr>shut := x7\<rparr>) = conns_of s"
  "conns_of (s\<lparr>chan := cs\<rparr>) + mset (chan s) = conns_of s + mset cs"
  by (simp_all add: conns_of_def ac_simps)

lemma users_simps [simp]:
  "users (s\<lparr>chan := x1\<rparr>) = users s" "users (s\<lparr>wg := x2\<rparr>) = users s" "users (s\<lparr>dialed_conns := x3\<rparr>) = users s"
  "users (s\<lparr>flag := x4\<rparr>) = users s" "users (s\<lparr>closer := x5\<rparr>) = users s" "users (s\<lparr>chan_closed := x6\<rparr>) = users s"
  "users (s\<lparr>shut := x7\<rparr>) = users s"
  by (simp_all add: users_def)

lemma counted_nonneg: "0 \<le> counted p"
  by (cases p) auto

lemma users_bound: "at s i p \<Longrightarrow> counted p \<le> users s"
  unfolding at_def users_def
  by (auto intro!: member_le_sum_list simp: counted_nonneg)

lemma at_goto_same: "at s i p \<Longrightarrow> at (goto i q s) i q"
  by (simp add: at_def)

lemma at_goto_other: "at s j p \<Longrightarrow> j \<noteq> i \<Longrightarrow> at (goto i q s) j p"
  by (simp add: at_def)

subsection \<open>Invariants\<close>

text \<open>The wait group counts the goroutines that use a connection: exactly, while the pool is not closed.\<close>

definition counts_users :: "shared_pool \<Rightarrow> bool" where
  "counts_users s \<longleftrightarrow> users s \<le> wg s \<and> (\<not> flag s \<longrightarrow> wg s = users s) \<and>
     (flag s \<longleftrightarrow> closer s \<in> {Stored, Draining, Finished}) \<and> (chan_closed s \<longleftrightarrow> closer s \<in> {Draining, Finished})"

lemma wg_done_eq:
  assumes "counts_users s" and "at s i p" "counted p = 1"
  shows "wg_done i q s = goto i q (s\<lparr>wg := wg s - 1\<rparr>)"
  using assms users_bound [OF assms(2)] by (simp add: wg_done_def counts_users_def)


lemma wg_done_counts_users:
  assumes "counts_users s" and "at s i p" "counted p = 1" "counted q = 0"
  shows "counts_users (wg_done i q s)"
proof -
  define t where "t = goto i q (s\<lparr>wg := wg s - 1\<rparr>)"
  have "users t = users s - 1" using users_goto [of "s\<lparr>wg := wg s - 1\<rparr>" i p q] assms by (simp add: t_def)
  moreover have "wg t = wg s - 1" "flag t = flag s" "chan_closed t = chan_closed s" "closer t = closer s"
    by (simp_all add: t_def)
  ultimately have "counts_users t" using assms(1) unfolding counts_users_def by simp
  with wg_done_eq [OF assms(1-3)] show ?thesis by (simp add: t_def)
qed

lemma step_counts_users:
  assumes "counts_users s" and "pool_step s s'"
  shows "counts_users s'"
  using assms(2)
proof cases
  case (get i)
  then show ?thesis
  proof cases
    case (receive_handoff j c)
    then have "i \<noteq> j" by (auto simp: at_def)
    with receive_handoff have "users s' = users s"
      using users_goto [OF at_goto_other [of s i Loaded j Sent]] users_goto [of s j "Releasing c" Sent] by auto
    with receive_handoff assms(1) show ?thesis by (simp add: counts_users_def)
  next
    case uncount_dial
    with assms(1) show ?thesis by (auto intro: wg_done_counts_users)
  qed (use assms(1) in \<open>auto simp: counts_users_def users_goto\<close>)
next
  case (release i)
  then show ?thesis
  proof cases
    case uncount_release
    with assms(1) show ?thesis by (auto intro: wg_done_counts_users)
  qed (use assms(1) in \<open>auto simp: counts_users_def users_goto\<close>)
next
  case close
  then show ?thesis by cases (use assms(1) in \<open>auto simp: counts_users_def\<close>)
next
  case (caller i)
  then show ?thesis by cases (use assms(1) in \<open>auto simp: counts_users_def users_goto\<close>)
qed

text \<open>No connection is in two places, and none of those in use or in the pool has been closed.\<close>

definition exclusive :: "shared_pool \<Rightarrow> bool" where
  "exclusive s \<longleftrightarrow> (\<forall>c. count (conns_of s) c \<le> 1) \<and> (\<forall>c \<in># conns_of s. c < dialed_conns s \<and> c \<notin> shut s) \<and>
     (\<forall>c \<in> shut s. c < dialed_conns s)"

lemma exclusive_subset:
  assumes "exclusive s" and "conns_of s' \<subseteq># conns_of s" "dialed_conns s' = dialed_conns s" "shut s' = shut s"
  shows "exclusive s'"
proof -
  have "count (conns_of s) c \<le> 1" for c using assms(1) by (simp add: exclusive_def)
  then have "count (conns_of s') c \<le> 1" for c using mset_subset_eq_count [OF assms(2), of c] by (rule order_trans [rotated])
  moreover have "c \<in># conns_of s" if "c \<in># conns_of s'" for c using that assms(2) by (rule mset_subset_eqD [rotated])
  ultimately show ?thesis using assms(1,3,4) by (auto simp: exclusive_def)
qed

text \<open>Every step but the end of a dial and the closing of a connection at most moves connections.\<close>

lemma conns_of_chan: "chan s = c # cs \<Longrightarrow> add_mset c (conns_of (s\<lparr>chan := cs\<rparr>)) = conns_of s"
  by (simp add: conns_of_def)

lemma conns_of_goto_eq: "at s i p \<Longrightarrow> held p = held q \<Longrightarrow> conns_of (goto i q s) = conns_of s"
  using conns_of_goto [of s i p q] by simp

lemma get_step_exclusive:
  assumes "get_step i s s'" and "exclusive s"
  shows "exclusive s'"
  using assms(1)
proof cases
  case (receive c cs)
  then have "conns_of s' = conns_of s"
    using conns_of_goto [of "s\<lparr>chan := cs\<rparr>" i Loaded "Received (Some c)"] conns_of_chan by simp
  with receive assms(2) show ?thesis by (simp add: exclusive_def)
next
  case (receive_handoff j c)
  then have "i \<noteq> j" by (auto simp: at_def)
  with receive_handoff have "conns_of s' = conns_of s"
    using conns_of_goto [OF at_goto_other [of s i Loaded j Sent], of "Received (Some c)"]
      conns_of_goto [of s j "Releasing c" Sent] by simp
  with receive_handoff assms(2) show ?thesis by (simp add: exclusive_def)
next
  case dial_ok
  then have "conns_of s' = add_mset (dialed_conns s) (conns_of s)"
    using conns_of_goto [of "s\<lparr>dialed_conns := Suc (dialed_conns s)\<rparr>" i Dialing "Holding (Some (dialed_conns s))"] by simp
  moreover have "dialed_conns s \<notin># conns_of s" "dialed_conns s \<notin> shut s" using assms(2) by (auto simp: exclusive_def)
  ultimately show ?thesis
    using assms(2) dial_ok by (auto simp: exclusive_def less_Suc_eq not_in_iff)
next
  case uncount_dial
  with assms(2) show ?thesis by (simp add: exclusive_def wg_done_def conns_of_goto_eq)
next
  case (count_received conn)
  then have "conns_of s' = conns_of s"
    using conns_of_goto [of "s\<lparr>wg := wg s + 1\<rparr>" i "Received conn" "Holding conn"] by (cases conn) auto
  with count_received assms(2) show ?thesis by (simp add: exclusive_def)
qed (use assms(2) in \<open>auto simp: exclusive_def conns_of_goto_eq\<close>)

lemma release_step_exclusive:
  assumes "release_step i s s'" and "exclusive s"
  shows "exclusive s'"
  using assms(1)
proof cases
  case (release_load_set c)
  with conns_of_goto [of s i "Holding (Some c)" Idle] have "conns_of s = add_mset c (conns_of s')" by simp
  with release_load_set assms(2) show ?thesis by (auto intro: exclusive_subset [of s])
next
  case (send_closed c)
  with conns_of_goto [of s i "Releasing c" "Crashed SendOnClosedChannel"] have "conns_of s = add_mset c (conns_of s')" by simp
  with send_closed assms(2) show ?thesis by (auto intro: exclusive_subset [of s])
next
  case (send c)
  have "conns_of (s\<lparr>chan := chan s @ [c]\<rparr>) = add_mset c (conns_of s)" by (simp add: conns_of_def)
  with send conns_of_goto [of "s\<lparr>chan := chan s @ [c]\<rparr>" i "Releasing c" Sent] have "conns_of s' = conns_of s" by simp
  with send assms(2) show ?thesis by (simp add: exclusive_def)
qed (use assms(2) in \<open>auto simp: exclusive_def wg_done_def conns_of_goto_eq\<close>)

lemma step_exclusive:
  assumes "exclusive s" and "pool_step s s'"
  shows "exclusive s'"
  using assms(2)
proof cases
  case close
  then show ?thesis
  proof cases
    case (close_conn c cs)
    let ?t = "s\<lparr>chan := cs\<rparr>"
    note conns = conns_of_chan [OF close_conn(3), symmetric]
    have "exclusive ?t" by (rule exclusive_subset [OF assms(1)]) (simp_all add: conns)
    moreover have "c \<notin># conns_of ?t" "c < dialed_conns s"
      using assms(1) by (auto simp: exclusive_def conns not_in_iff dest: spec [of _ c])
    ultimately show ?thesis by (auto simp: exclusive_def close_conn(1))
  qed (use assms(1) in \<open>auto simp: exclusive_def\<close>)
next
  case (caller i)
  then show ?thesis by cases (use assms(1) in \<open>auto simp: exclusive_def conns_of_goto_eq\<close>)
qed (use assms(1) get_step_exclusive release_step_exclusive in blast)+

text \<open>Nil connections and panics occur only once the channel is closed.\<close>

definition sane :: "shared_pool \<Rightarrow> bool" where
  "sane s \<longleftrightarrow> (\<forall>p \<in> set (threads s). p = Received None \<or> p = Holding None \<or> (\<exists>e. p = Crashed e) \<longrightarrow> chan_closed s) \<and>
     Crashed NegativeWaitGroup \<notin> set (threads s)"

lemma sane_goto:
  assumes "sane s" and "p \<noteq> Crashed NegativeWaitGroup"
    and "p = Received None \<or> p = Holding None \<or> (\<exists>e. p = Crashed e) \<Longrightarrow> chan_closed s"
  shows "sane (goto i p s)"
  using assms set_update_subset_insert [of "threads s" i p] by (auto simp: sane_def)

lemma sane_simps [simp]:
  "sane (s\<lparr>chan := x1\<rparr>) = sane s" "sane (s\<lparr>wg := x2\<rparr>) = sane s" "sane (s\<lparr>dialed_conns := x3\<rparr>) = sane s"
  "sane (s\<lparr>flag := x4\<rparr>) = sane s" "sane (s\<lparr>closer := x5\<rparr>) = sane s" "sane (s\<lparr>shut := x6\<rparr>) = sane s"
  by (simp_all add: sane_def)

lemma sane_at:
  assumes "sane s" and "at s i p"
  shows "p = Received None \<or> p = Holding None \<or> (\<exists>e. p = Crashed e) \<Longrightarrow> chan_closed s" "p \<noteq> Crashed NegativeWaitGroup"
  using assms nth_mem [of i "threads s"] by (auto simp: sane_def at_def)

lemma step_sane:
  assumes "sane s" "counts_users s" and "pool_step s s'"
  shows "sane s'"
  using assms(3)
proof cases
  case (get i)
  then show ?thesis
  proof cases
    case (count_received conn)
    with assms(1) sane_at [of s i "Received conn"] show ?thesis by (auto intro!: sane_goto)
  next
    case uncount_dial
    with assms wg_done_eq [of s i DialFailed] show ?thesis by (auto intro!: sane_goto)
  qed (use assms(1) in \<open>auto intro!: sane_goto\<close>)
next
  case (release i)
  then show ?thesis
  proof cases
    case uncount_release
    with assms wg_done_eq [of s i Sent] show ?thesis by (auto intro!: sane_goto)
  qed (use assms(1) in \<open>auto intro!: sane_goto\<close>)
next
  case close
  then show ?thesis by cases (use assms(1) in \<open>auto simp: sane_def\<close>)
next
  case (caller i)
  then show ?thesis by cases (use assms(1) sane_at in \<open>auto intro!: sane_goto\<close>)
qed

text \<open>With no more goroutines than the channel has room for, all connections fit into the channel at any time.\<close>

fun weight :: "pc \<Rightarrow> nat" where
  "weight (Received (Some c)) = 1"
| "weight Missed = 1"
| "weight Dialing = 1"
| "weight (Holding (Some c)) = 1"
| "weight (Releasing c) = 1"
| "weight _ = 0"

definition load :: "shared_pool \<Rightarrow> nat" where
  "load s = length (chan s) + sum_list (map weight (threads s))"

definition fits :: "shared_pool \<Rightarrow> bool" where
  "fits s \<longleftrightarrow> load s \<le> chan_cap s \<and> length (threads s) \<le> chan_cap s"

lemma weight_le: "weight p \<le> 1"
  by (cases p rule: weight.cases) auto

lemma sum_weight_le: "sum_list (map weight ps) \<le> length ps"
proof (induction ps)
  case (Cons p ps)
  with weight_le [of p] show ?case by simp
qed simp

lemma load_goto: "at s i p \<Longrightarrow> load (goto i q s) + weight p = load s + weight q"
  using sum_list_map_update [of i "threads s" weight q] by (simp add: at_def load_def)

lemma load_simps [simp]:
  "load (s\<lparr>wg := x2\<rparr>) = load s" "load (s\<lparr>dialed_conns := x3\<rparr>) = load s" "load (s\<lparr>flag := x4\<rparr>) = load s"
  "load (s\<lparr>closer := x5\<rparr>) = load s" "load (s\<lparr>chan_closed := x6\<rparr>) = load s" "load (s\<lparr>shut := x7\<rparr>) = load s"
  "load (s\<lparr>chan := cs\<rparr>) + length (chan s) = load s + length cs"
  by (simp_all add: load_def)

lemma load_weight: "at s i p \<Longrightarrow> length (chan s) + weight p \<le> load s"
  by (auto simp: at_def load_def intro!: member_le_sum_list)

lemma fits_goto: "fits s \<Longrightarrow> at s i p \<Longrightarrow> weight q \<le> weight p \<Longrightarrow> fits (goto i q s)"
  using load_goto [of s i p q] by (simp add: fits_def)

lemma fits_simps [simp]:
  "fits (s\<lparr>wg := x2\<rparr>) = fits s" "fits (s\<lparr>dialed_conns := x3\<rparr>) = fits s" "fits (s\<lparr>flag := x4\<rparr>) = fits s"
  "fits (s\<lparr>closer := x5\<rparr>) = fits s" "fits (s\<lparr>chan_closed := x6\<rparr>) = fits s" "fits (s\<lparr>shut := x7\<rparr>) = fits s"
  by (simp_all add: fits_def)

lemma step_fits:
  assumes "fits s" and "pool_step s s'"
  shows "fits s'"
  using assms(2)
proof cases
  case (get i)
  then show ?thesis
  proof cases
    case (receive c cs)
    have "load s = Suc (load (s\<lparr>chan := cs\<rparr>))" using receive(3) by (simp add: load_def)
    with receive load_goto [of "s\<lparr>chan := cs\<rparr>" i Loaded "Received (Some c)"] assms(1) show ?thesis by (simp add: fits_def)
  next
    case (receive_handoff j c)
    with assms(1) show ?thesis by (auto simp: fits_def at_def)
  next
    case default_branch
    then have "load s' \<le> length (threads s')" using sum_weight_le [of "threads s'"] by (simp add: load_def)
    with default_branch assms(1) show ?thesis by (simp add: fits_def)
  next
    case (count_received conn)
    with assms(1) show ?thesis by (cases conn) (auto intro: fits_goto)
  qed (use assms(1) in \<open>auto simp: wg_done_def intro: fits_goto\<close>)
next
  case (release i)
  then show ?thesis
  proof cases
    case (send c)
    have "load (s\<lparr>chan := chan s @ [c]\<rparr>) = Suc (load s)" by (simp add: load_def)
    with send load_goto [of "s\<lparr>chan := chan s @ [c]\<rparr>" i "Releasing c" Sent] assms(1) show ?thesis by (simp add: fits_def)
  qed (use assms(1) in \<open>auto simp: wg_done_def intro: fits_goto\<close>)
next
  case close
  then show ?thesis by cases (use assms(1) in \<open>auto simp: fits_def load_def\<close>)
next
  case (caller i)
  then show ?thesis by cases (use assms(1) in \<open>auto intro: fits_goto\<close>)
qed

lemma reachable_invariants:
  assumes "reachable (fresh_pool n k cap) s"
  shows "counts_users s \<and> exclusive s \<and> sane s"
  using assms
proof induction
  case start
  have "count (mset [0..<k]) c \<le> 1" for c by (cases "c < k") simp_all
  then show ?case
    by (auto simp: counts_users_def exclusive_def sane_def conns_of_def users_def fresh_pool_def)
next
  case (step s s')
  then show ?case using step_counts_users step_exclusive step_sane by blast
qed

lemma reachable_fits:
  assumes "reachable (fresh_pool n k cap) s" and "n \<le> cap" "k \<le> cap"
  shows "fits s"
  using assms(1)
proof induction
  case start
  show ?case using assms(2,3) by (simp add: fits_def load_def fresh_pool_def sum_list_replicate)
qed (rule step_fits)

lemma counted_cases: "counted p = 0 \<or> counted p = 1"
  by (cases p) auto

lemma count_pos: "c \<in> set xs \<Longrightarrow> 1 \<le> count (mset xs) c"
  by (simp add: Suc_le_eq)

lemma at_once:
  assumes "at s i p"
  shows "count (mset (held p)) c + count (mset (chan s)) c \<le> count (conns_of s) c"
proof -
  have "conns_of s = conns_of (goto i Gone s) + mset (held p)" using conns_of_goto [OF assms, of Gone] by simp
  then show ?thesis by (simp add: conns_of_def)
qed

lemma at_twice:
  assumes "at s i p" "at s j q" "i \<noteq> j"
  shows "count (mset (held p)) c + count (mset (held q)) c + count (mset (chan s)) c \<le> count (conns_of s) c"
proof -
  have "at (goto i Gone s) j q" using assms by (simp add: at_goto_other)
  note rest = at_once [OF this, of c]
  have eq: "conns_of s = conns_of (goto i Gone s) + mset (held p)" using conns_of_goto [OF assms(1), of Gone] by simp
  from rest show ?thesis unfolding eq by simp
qed

subsection \<open>Properties\<close>

text \<open>C10: No connection is shared: in every state the pool and its users can reach, in any interleaving and
  also while the pool is being closed, the connections in the channel and in the hands of the goroutines
  are pairwise different, so no two goroutines use the same one, and none of them has been closed.\<close>

theorem connections_are_exclusive:
  assumes "reachable (fresh_pool n k cap) s"
  shows "(at s i p \<and> at s j q \<and> i \<noteq> j \<longrightarrow> set (held p) \<inter> set (held q) = {}) \<and>
    (at s i p \<longrightarrow> set (held p) \<inter> set (chan s) = {} \<and> set (held p) \<inter> shut s = {}) \<and>
    distinct (chan s) \<and> set (chan s) \<inter> shut s = {}"
proof -
  note inv = reachable_invariants [OF assms]
  have one: "c \<notin> set (held q) \<and> c \<notin> set (chan s)"
    if "at s i p" "at s j q" "i \<noteq> j" "c \<in> set (held p)" for c i j p q
  proof -
    have "count (conns_of s) c \<le> 1" using inv by (simp add: exclusive_def)
    with at_twice [OF that(1-3), of c] count_pos [OF that(4)]
    have "count (mset (held q)) c = 0" "count (mset (chan s)) c = 0" by linarith+
    then show ?thesis by (simp_all add: count_eq_zero_iff)
  qed
  have other: "set (held p) \<inter> set (chan s) = {} \<and> set (held p) \<inter> shut s = {}" if "at s i p" for i p
  proof -
    have "c \<notin> set (chan s) \<and> c \<notin> shut s" if c: "c \<in> set (held p)" for c
    proof -
      from count_pos [OF c] at_once [OF \<open>at s i p\<close>, of c] have "count (mset (chan s)) c < count (conns_of s) c" by linarith
      moreover have "count (conns_of s) c \<le> 1" using inv by (simp add: exclusive_def)
      ultimately have "count (mset (chan s)) c = 0" "0 < count (conns_of s) c" by linarith+
      with inv show ?thesis by (auto simp: exclusive_def count_eq_zero_iff count_greater_zero_iff)
    qed
    then show ?thesis by blast
  qed
  have chan: "count (mset (chan s)) c \<le> 1 \<and> (c \<in> set (chan s) \<longrightarrow> c \<notin> shut s)" for c
  proof -
    have "count (conns_of s) c \<le> 1" using inv by (simp add: exclusive_def)
    then have "count (mset (chan s)) c \<le> 1" by (simp add: conns_of_def)
    moreover have "c \<in># conns_of s" if "c \<in> set (chan s)" using that by (simp add: conns_of_def)
    ultimately show ?thesis using inv by (auto simp: exclusive_def)
  qed
  then have "distinct (chan s)" by (metis distinct_count_atmost_1 count_eq_zero_iff in_multiset_in_set le_less less_one)
  with one other chan show ?thesis by blast
qed


lemma callers_go_on:
  assumes "reachable (fresh_pool n k cap) s" and "n \<le> cap" "k \<le> cap"
  shows "(at s i p \<and> p \<notin> {Gone, Holding None} \<and> (\<forall>e. p \<noteq> Crashed e) \<longrightarrow>
      (\<exists>s'. get_step i s s' \<or> release_step i s s')) \<and>
    (closer s = Waiting \<and> wg s \<noteq> 0 \<longrightarrow>
      (\<exists>i s'. (\<exists>p. at s i p \<and> counted p = 1) \<and> (get_step i s s' \<or> release_step i s s')))"
proof -
  note inv = reachable_invariants [OF assms(1)]
  have go: "\<exists>s'. get_step i s s' \<or> release_step i s s'"
    if at: "at s i p" and p: "p \<notin> {Gone, Holding None}" "\<forall>e. p \<noteq> Crashed e" for i p
  proof (cases p)
    case (Releasing c)
    have "length (chan s) < chan_cap s"
      using reachable_fits [OF assms] load_weight [OF at] Releasing by (auto simp: fits_def)
    with at Releasing show ?thesis by (cases "chan_closed s") (blast intro: release_step.intros)+
  next
    case Loaded
    with at show ?thesis
      by (cases "chan s"; cases "chan_closed s") (blast intro: get_step.intros)+
  next
    case (Holding conn)
    with at p show ?thesis by (cases conn; cases "flag s") (blast intro: release_step.intros)+
  next
    case Idle
    with at show ?thesis by (cases "flag s") (blast intro: get_step.intros)+
  qed (use at p in \<open>blast intro: get_step.intros release_step.intros\<close>)+
  have "\<exists>i s'. (\<exists>p. at s i p \<and> counted p = 1) \<and> (get_step i s s' \<or> release_step i s s')"
    if "closer s = Waiting" "wg s \<noteq> 0"
  proof -
    from that inv have "users s \<noteq> 0" "\<not> chan_closed s" by (auto simp: counts_users_def)
    then obtain p where "p \<in> set (threads s)" "counted p \<noteq> 0"
      unfolding users_def using sum_list_nonneg_eq_0_iff [of "map counted (threads s)"] counted_nonneg by auto
    then obtain i where i: "at s i p" "counted p = 1"
      using counted_cases [of p] by (auto simp: at_def in_set_conv_nth)
    with sane_at [of s i p] inv \<open>\<not> chan_closed s\<close> have "p \<notin> {Gone, Holding None}" "\<forall>e. p \<noteq> Crashed e" by auto
    from go [OF i(1) this] i show ?thesis by blast
  qed
  with go show ?thesis by blast
qed

text \<open>Concrete runs. The flags follow from where \<^verbatim>\<open>Close\<close> is.\<close>

definition snapshot :: "nat list \<Rightarrow> nat \<Rightarrow> int \<Rightarrow> nat \<Rightarrow> nat set \<Rightarrow> pc list \<Rightarrow> closer \<Rightarrow> shared_pool" where
  "snapshot cs cap n d closed_conns ps cl = \<lparr>chan = cs, chan_cap = cap, chan_closed = (cl = Draining \<or> cl = Finished),
     flag = (cl = Stored \<or> cl = Draining \<or> cl = Finished), wg = n, dialed_conns = d, shut = closed_conns,
     threads = ps, closer = cl\<rparr>"

lemmas run_simps = snapshot_def at_def goto_def wg_done_def

lemmas run_get = reachable.step [OF _ pool_step.get]
lemmas run_release = reachable.step [OF _ pool_step.release]
lemmas run_close = reachable.step [OF _ pool_step.close]
lemmas run_caller = reachable.step [OF _ pool_step.caller]

lemma fresh_snapshot: "fresh_pool n k cap = snapshot [0..<k] cap 0 k {} (replicate n Idle) NotClosing"
  by (simp add: fresh_pool_def snapshot_def)

text \<open>Taking a pooled connection, up to the moment it is in the caller's hands.\<close>

lemma run_take:
  assumes "reachable s0 (snapshot (c # cs) cap n d sh ps cl)" and "i < length ps" "ps ! i = Idle"
    and "cl = NotClosing \<or> cl = Waiting \<or> cl = Waited"
  shows "reachable s0 (snapshot cs cap (n + 1) d sh (ps[i := Holding (Some c)]) cl)"
proof -
  have "reachable s0 (snapshot (c # cs) cap n d sh (ps[i := Loaded]) cl)"
    using run_get [OF assms(1) get_step.load_unset [of _ i]] assms(2-) by (auto simp: run_simps)
  from run_get [OF this get_step.receive [of _ i c cs]] assms(2)
  have "reachable s0 (snapshot cs cap n d sh (ps[i := Received (Some c)]) cl)" by (simp add: run_simps)
  from run_get [OF this get_step.count_received [of _ i "Some c"]] assms(2)
  show ?thesis by (simp add: run_simps)
qed

lemma run_dial:
  assumes "reachable s0 (snapshot [] cap n d sh ps cl)" and "i < length ps" "ps ! i = Idle"
    and "cl = NotClosing \<or> cl = Waiting \<or> cl = Waited"
  shows "reachable s0 (snapshot [] cap (n + 1) (Suc d) sh (ps[i := Holding (Some d)]) cl)"
proof -
  have "reachable s0 (snapshot [] cap n d sh (ps[i := Loaded]) cl)"
    using run_get [OF assms(1) get_step.load_unset [of _ i]] assms(2-) by (auto simp: run_simps)
  from run_get [OF this get_step.default_branch [of _ i]] assms(2,4)
  have "reachable s0 (snapshot [] cap n d sh (ps[i := Missed]) cl)" by (auto simp: run_simps)
  from run_get [OF this get_step.count_dial [of _ i]] assms(2)
  have "reachable s0 (snapshot [] cap (n + 1) d sh (ps[i := Dialing]) cl)" by (simp add: run_simps)
  from run_get [OF this get_step.dial_ok [of _ i]] assms(2)
  show ?thesis by (simp add: run_simps)
qed

text \<open>
  Two goroutines with a pool of size 1 take a connection each, the second one dialed anew; the first returns
  its connection and ends, the second waits to return its own, and \<^verbatim>\<open>Close\<close> waits for it.
\<close>

lemma one_caller_too_many:
  "\<exists>s. reachable (fresh_pool 2 1 1) s \<and> closer s = Waiting \<and> at s 1 (Releasing 1) \<and> (\<forall>s'. \<not> pool_step s s')"
proof -
  let ?s0 = "fresh_pool 2 1 1"
  have "reachable ?s0 (snapshot [0] 1 0 1 {} [Idle, Idle] NotClosing)"
    using reachable.start [of ?s0] by (simp add: fresh_snapshot numeral_2_eq_2)
  from run_take [OF this, of 0] have "reachable ?s0 (snapshot [] 1 1 1 {} [Holding (Some 0), Idle] NotClosing)" by simp
  from run_dial [OF this, of 1] have "reachable ?s0 (snapshot [] 1 2 2 {} [Holding (Some 0), Holding (Some 1)] NotClosing)"
    by (simp add: numeral_2_eq_2)
  from run_release [OF this release_step.release_load_unset [of _ 0 0]]
  have "reachable ?s0 (snapshot [] 1 2 2 {} [Releasing 0, Holding (Some 1)] NotClosing)" by (simp add: run_simps)
  from run_release [OF this release_step.send [of _ 0 0]]
  have "reachable ?s0 (snapshot [0] 1 2 2 {} [Sent, Holding (Some 1)] NotClosing)" by (simp add: run_simps)
  from run_release [OF this release_step.uncount_release [of _ 0]]
  have "reachable ?s0 (snapshot [0] 1 1 2 {} [Idle, Holding (Some 1)] NotClosing)" by (simp add: run_simps)
  from run_caller [OF this caller_step.ends [of _ 0]]
  have "reachable ?s0 (snapshot [0] 1 1 2 {} [Gone, Holding (Some 1)] NotClosing)" by (simp add: run_simps)
  from run_release [OF this release_step.release_load_unset [of _ 1 1]]
  have "reachable ?s0 (snapshot [0] 1 1 2 {} [Gone, Releasing 1] NotClosing)" by (simp add: run_simps)
  from run_close [OF this close_step.call]
  have "reachable ?s0 (snapshot [0] 1 1 2 {} [Gone, Releasing 1] Waiting)" by (simp add: run_simps)
  moreover have "\<not> pool_step (snapshot [0] 1 1 2 {} [Gone, Releasing 1] Waiting) s'" for s'
    by (auto simp: run_simps less_Suc_eq nth_Cons' elim!: pool_step.cases get_step.cases release_step.cases
      close_step.cases caller_step.cases split: if_splits)
  ultimately show ?thesis by (auto simp: run_simps intro!: exI [of _ "snapshot [0] 1 1 2 {} [Gone, Releasing 1] Waiting"])
qed

text \<open>C22: With at most as many goroutines as the pool has room for, nobody waits in the pool's methods: whatever a
  goroutine is doing there, it can go on, in particular a connection can always be returned; and when
  \<^verbatim>\<open>Close\<close> waits, then for goroutines that can go on. One goroutine more can hang the pool: with two on a pool
  of size 1, one waits to return its connection while \<^verbatim>\<open>Close\<close> waits for it, a deadlock.\<close>

theorem callers_within_the_capacity_never_wait:
  assumes "reachable (fresh_pool n k cap) s" and "n \<le> cap" "k \<le> cap"
  shows "((at s i p \<and> p \<notin> {Gone, Holding None} \<and> (\<forall>e. p \<noteq> Crashed e) \<longrightarrow>
      (\<exists>s'. get_step i s s' \<or> release_step i s s')) \<and>
    (closer s = Waiting \<and> wg s \<noteq> 0 \<longrightarrow>
      (\<exists>i s'. (\<exists>p. at s i p \<and> counted p = 1) \<and> (get_step i s s' \<or> release_step i s s')))) \<and>
    (\<exists>s. reachable (fresh_pool 2 1 1) s \<and> closer s = Waiting \<and> at s 1 (Releasing 1) \<and> (\<forall>s'. \<not> pool_step s s'))"
  by (intro conjI one_caller_too_many) (use callers_go_on [OF assms] in blast)+

text \<open>C36: Closing a pool while it is in use is not safe, although \<^verbatim>\<open>Close\<close> waits for the users first, because
  the waiting and the closing are separate steps. A goroutine that takes a connection in between can panic
  when it returns it, with a send on a closed channel; one that found the pool open before can be handed nil
  after it, and panics when it uses it; and a connection that was taken in between is never closed,
  even when \<^verbatim>\<open>Close\<close> is over and all goroutines have ended.\<close>

theorem closing_a_pool_in_use:
  "(\<exists>s. reachable (fresh_pool 1 1 1) s \<and> at s 0 (Crashed SendOnClosedChannel)) \<and>
   (\<exists>s. reachable (fresh_pool 1 1 1) s \<and> at s 0 (Crashed NilConnection)) \<and>
   (\<exists>s. reachable (fresh_pool 1 1 1) s \<and> closer s = Finished \<and> threads s = [Gone] \<and> dialed_conns s = 1 \<and> shut s = {})"
proof -
  let ?s0 = "fresh_pool 1 1 1"
  have idle: "reachable ?s0 (snapshot [0] 1 0 1 {} [Idle] NotClosing)"
    using reachable.start [of ?s0] by (simp add: fresh_snapshot)
  from run_close [OF idle close_step.call] have "reachable ?s0 (snapshot [0] 1 0 1 {} [Idle] Waiting)" by (simp add: run_simps)
  from run_close [OF this close_step.wait] have waited: "reachable ?s0 (snapshot [0] 1 0 1 {} [Idle] Waited)"
    by (simp add: run_simps)
  from run_take [OF waited, of 0] have took: "reachable ?s0 (snapshot [] 1 1 1 {} [Holding (Some 0)] Waited)" by simp
  have "reachable ?s0 (snapshot [] 1 1 1 {} [Releasing 0] Waited)"
    using run_release [OF took release_step.release_load_unset [of _ 0 0]] by (simp add: run_simps)
  from run_close [OF this close_step.store] have "reachable ?s0 (snapshot [] 1 1 1 {} [Releasing 0] Stored)"
    by (simp add: run_simps)
  from run_close [OF this close_step.close_chan] have "reachable ?s0 (snapshot [] 1 1 1 {} [Releasing 0] Draining)"
    by (simp add: run_simps)
  from run_release [OF this release_step.send_closed [of _ 0 0]]
  have 1: "reachable ?s0 (snapshot [] 1 1 1 {} [Crashed SendOnClosedChannel] Draining)" by (simp add: run_simps)
  have "reachable ?s0 (snapshot [0] 1 0 1 {} [Loaded] Waited)"
    using run_get [OF waited get_step.load_unset [of _ 0]] by (simp add: run_simps)
  from run_close [OF this close_step.store] have "reachable ?s0 (snapshot [0] 1 0 1 {} [Loaded] Stored)" by (simp add: run_simps)
  from run_close [OF this close_step.close_chan] have "reachable ?s0 (snapshot [0] 1 0 1 {} [Loaded] Draining)"
    by (simp add: run_simps)
  from run_close [OF this close_step.close_conn [of _ 0 "[]"]] have "reachable ?s0 (snapshot [] 1 0 1 {0} [Loaded] Draining)"
    by (simp add: run_simps)
  from run_get [OF this get_step.receive_closed [of _ 0]]
  have "reachable ?s0 (snapshot [] 1 0 1 {0} [Received None] Draining)" by (simp add: run_simps)
  from run_get [OF this get_step.count_received [of _ 0 None]]
  have "reachable ?s0 (snapshot [] 1 1 1 {0} [Holding None] Draining)" by (simp add: run_simps)
  from run_caller [OF this caller_step.uses_nil [of _ 0]]
  have 2: "reachable ?s0 (snapshot [] 1 1 1 {0} [Crashed NilConnection] Draining)" by (simp add: run_simps)
  from run_close [OF took close_step.store] have "reachable ?s0 (snapshot [] 1 1 1 {} [Holding (Some 0)] Stored)"
    by (simp add: run_simps)
  from run_release [OF this release_step.release_load_set [of _ 0 0]]
  have "reachable ?s0 (snapshot [] 1 1 1 {} [Idle] Stored)" by (simp add: run_simps)
  from run_caller [OF this caller_step.ends [of _ 0]] have "reachable ?s0 (snapshot [] 1 1 1 {} [Gone] Stored)" by (simp add: run_simps)
  from run_close [OF this close_step.close_chan] have "reachable ?s0 (snapshot [] 1 1 1 {} [Gone] Draining)" by (simp add: run_simps)
  from run_close [OF this close_step.drained] have 3: "reachable ?s0 (snapshot [] 1 1 1 {} [Gone] Finished)" by (simp add: run_simps)
  show ?thesis
    using 1 2 3 by (intro conjI exI [of _ "snapshot [] 1 1 1 {} [Crashed SendOnClosedChannel] Draining"]
      exI [of _ "snapshot [] 1 1 1 {0} [Crashed NilConnection] Draining"] exI [of _ "snapshot [] 1 1 1 {} [Gone] Finished"])
      (simp_all add: run_simps)
qed

subsection \<open>The methods as runs of their steps\<close>

text \<open>The concurrent pool keeps of a connection only that it is one; everything else of the pool is the same.\<close>

definition represents :: "shared_pool \<Rightarrow> ConnectionPool \<Rightarrow> bool" where
  "represents s cp \<longleftrightarrow> length (chan s) = length (cp_connections cp) \<and> chan_cap s = cp_size cp \<and>
     chan_closed s = cp_chan_closed cp \<and> flag s = cp_closed cp \<and> wg s = cp_wg cp"

text \<open>What a goroutine has after \<^verbatim>\<open>GetConnection\<close>.\<close>

fun got :: "TCPClient option res \<Rightarrow> pc \<Rightarrow> bool" where
  "got (Ok None) p \<longleftrightarrow> p = Holding None"
| "got (Ok (Some c)) p \<longleftrightarrow> (\<exists>n. p = Holding (Some n))"
| "got (Err e) p \<longleftrightarrow> p = Idle"
| "got _ p \<longleftrightarrow> False"

lemma reachable_trans: "reachable s t \<Longrightarrow> reachable t u \<Longrightarrow> reachable s u"
  by (rotate_tac 1, induction rule: reachable.induct) (auto intro: reachable.step)

lemma reachable_get: "get_step i s s' \<Longrightarrow> reachable s' t \<Longrightarrow> reachable s t"
  by (rule reachable_trans [OF reachable.step [OF reachable.start pool_step.get]])

lemma reachable_release: "release_step i s s' \<Longrightarrow> reachable s' t \<Longrightarrow> reachable s t"
  by (rule reachable_trans [OF reachable.step [OF reachable.start pool_step.release]])

lemma reachable_close: "close_step s s' \<Longrightarrow> reachable s' t \<Longrightarrow> reachable s t"
  by (rule reachable_trans [OF reachable.step [OF reachable.start pool_step.close]])

lemmas get_pool_simps = GetConnection_def represents_def bindR_def wg_Add_def wg_Done_def wg_done_def Let_def at_def throw_def

text \<open>\<^verbatim>\<open>GetConnection\<close> on an open pool, branch by branch, from the point where the flag was found unset.\<close>

lemma GetConnection_receives:
  assumes "represents s cp" "0 \<le> cp_wg cp" "\<not> cp_closed cp" "cp_connections cp = Some c # rest" "at s i Loaded"
    and "GetConnection (cp, w) = (r, (cp', w'))"
  shows "\<exists>s' p. reachable s s' \<and> represents s' cp' \<and> at s' i p \<and> got r p"
proof -
  obtain n ns where ns: "chan s = n # ns" using assms(1,4) by (cases "chan s") (auto simp: represents_def)
  let ?s2 = "goto i (Received (Some n)) (s\<lparr>chan := ns\<rparr>)"
  let ?s3 = "goto i (Holding (Some n)) (?s2\<lparr>wg := wg ?s2 + 1\<rparr>)"
  have i: "i < length (threads s)" using assms(5) by (simp add: at_def)
  have st: "get_step i s ?s2" "get_step i ?s2 ?s3"
    using get_step.receive [of s i n ns] get_step.count_received [of ?s2 i "Some n"] assms(5) ns i by (auto simp: at_def)
  have "reachable s ?s3" by (rule reachable_get [OF st(1) reachable_get [OF st(2) reachable.start]])
  moreover have "represents ?s3 cp'" "got r (Holding (Some n))" "at ?s3 i (Holding (Some n))"
    using assms(1-4,6) ns i by (auto simp: get_pool_simps split: if_splits)
  ultimately show ?thesis by blast
qed

lemma GetConnection_receives_nil:
  assumes "represents s cp" "0 \<le> cp_wg cp" "\<not> cp_closed cp" "cp_connections cp = []" "cp_chan_closed cp" "at s i Loaded"
    and "GetConnection (cp, w) = (r, (cp', w'))"
  shows "\<exists>s' p. reachable s s' \<and> represents s' cp' \<and> at s' i p \<and> got r p"
proof -
  let ?s2 = "goto i (Received None) s"
  let ?s3 = "goto i (Holding None) (?s2\<lparr>wg := wg ?s2 + 1\<rparr>)"
  have i: "i < length (threads s)" using assms(6) by (simp add: at_def)
  have st: "get_step i s ?s2" "get_step i ?s2 ?s3"
    using get_step.receive_closed [of s i] get_step.count_received [of ?s2 i None] assms(1,4-6) i
    by (auto simp: at_def represents_def)
  have "reachable s ?s3" by (rule reachable_get [OF st(1) reachable_get [OF st(2) reachable.start]])
  moreover have "represents ?s3 cp'" "got r (Holding None)" "at ?s3 i (Holding None)"
    using assms(1-5,7) i by (auto simp: get_pool_simps split: if_splits)
  ultimately show ?thesis by blast
qed

lemma GetConnection_dials:
  assumes "represents s cp" "0 \<le> cp_wg cp" "\<not> cp_closed cp" "cp_connections cp = []" "\<not> cp_chan_closed cp" "at s i Loaded"
    and "GetConnection (cp, w) = (r, (cp', w'))" "returns r"
  shows "\<exists>s' p. reachable s s' \<and> represents s' cp' \<and> at s' i p \<and> got r p"
proof -
  let ?s2 = "goto i Missed s" and ?d = "dialed_conns s"
  let ?s3 = "goto i Dialing (?s2\<lparr>wg := wg ?s2 + 1\<rparr>)"
  let ?ok = "goto i (Holding (Some ?d)) (?s3\<lparr>dialed_conns := Suc ?d\<rparr>)" and ?failed = "wg_done i Idle (goto i DialFailed ?s3)"
  have i: "i < length (threads s)" using assms(6) by (simp add: at_def)
  have st: "get_step i s ?s2" "get_step i ?s2 ?s3"
    using get_step.default_branch [of s i] get_step.count_dial [of ?s2 i] assms(1,4-6) i by (auto simp: at_def represents_def)
  have ok: "get_step i ?s3 ?ok" using get_step.dial_ok [of ?s3 i] i by (simp add: at_def)
  have failed: "get_step i ?s3 (goto i DialFailed ?s3)" "get_step i (goto i DialFailed ?s3) ?failed"
    using i by (auto intro!: get_step.dial_failed get_step.uncount_dial simp: at_def)
  note dialing = reachable_get [OF st(1) reachable_get [OF st(2)]]
  have run: "reachable s ?ok" "reachable s ?failed"
    by (rule dialing [OF reachable_get [OF ok reachable.start]],
      rule dialing [OF reachable_get [OF failed(1) reachable_get [OF failed(2) reachable.start]]])
  obtain q w2 where q: "cp_newConn cp w = (q, w2)" by (metis surj_pair)
  note get = assms(1-5,7) q i
  show ?thesis
  proof (cases q)
    case (Ok c)
    with get have "represents ?ok cp'" "got r (Holding (Some ?d))" "at ?ok i (Holding (Some ?d))"
      by (auto simp: get_pool_simps split: if_splits)
    with run(1) show ?thesis by blast
  next
    case (Err e)
    with get have "represents ?failed cp'" "got r Idle" "at ?failed i Idle" by (auto simp: get_pool_simps split: if_splits)
    with run(2) show ?thesis by blast
  qed (use get assms(8) in \<open>auto simp: get_pool_simps split: if_splits\<close>)
qed

lemma GetConnection_run:
  assumes "represents s cp" "0 \<le> cp_wg cp" "None \<notin> set (cp_connections cp)" "at s i Idle"
    and "GetConnection (cp, w) = (r, (cp', w'))" "returns r"
  shows "\<exists>s' p. reachable s s' \<and> represents s' cp' \<and> at s' i p \<and> got r p"
proof (cases "cp_closed cp")
  case True
  with assms show ?thesis by (auto simp: GetConnection_def intro!: exI [of _ s] reachable.start)
next
  case False
  let ?s1 = "goto i Loaded s"
  have s1: "get_step i s ?s1" using False assms(1,4) by (intro get_step.load_unset) (simp_all add: represents_def)
  have at: "represents ?s1 cp" "at ?s1 i Loaded" using assms(1,4) by (simp_all add: represents_def at_def)
  have "\<exists>s' p. reachable ?s1 s' \<and> represents s' cp' \<and> at s' i p \<and> got r p"
  proof (cases "cp_connections cp")
    case (Cons conn rest)
    with assms(3) obtain c where "cp_connections cp = Some c # rest" by (cases conn) auto
    from GetConnection_receives [OF at(1) assms(2) False this at(2) assms(5)] show ?thesis .
  next
    case Nil
    then show ?thesis
      using GetConnection_receives_nil [OF at(1) assms(2) False Nil _ at(2) assms(5)]
        GetConnection_dials [OF at(1) assms(2) False Nil _ at(2) assms(5,6)] by blast
  qed
  with s1 show ?thesis using reachable_get by blast
qed

lemma ReleaseConnection_run:
  assumes "represents s cp" "0 < cp_wg cp" "at s i (Holding (Some n))"
    and "ReleaseConnection conn (cp, w) = (r, (cp', w'))" "0 < cp_size cp"
  shows "\<exists>s'. reachable s s' \<and> represents s' cp' \<and>
    (r = Ok () \<and> at s' i Idle \<or> r = Blocked \<and> at s' i (Releasing n) \<and> (\<forall>t. \<not> release_step i s' t) \<or>
     r = Panic ''send on closed channel'' \<and> at s' i (Crashed SendOnClosedChannel))"
proof -
  have i: "i < length (threads s)" using assms(3) by (simp add: at_def)
  let ?s1 = "goto i (Releasing n) s"
  show ?thesis
  proof (cases "cp_closed cp")
    case True
    let ?t = "goto i Idle s"
    have "release_step i s ?t" using True assms(1,3) by (auto simp: represents_def intro: release_step.release_load_set)
    from reachable_release [OF this reachable.start] have "reachable s ?t" .
    moreover have "r = Ok ()" "represents ?t cp'" "at ?t i Idle"
      using True assms i by (auto simp: ReleaseConnection_def represents_def at_def)
    ultimately show ?thesis by blast
  next
    case False
    then have s1: "release_step i s ?s1" using assms(1,3) by (intro release_step.release_load_unset) (auto simp: represents_def)
    consider "cp_chan_closed cp" | "\<not> cp_chan_closed cp" "cp_size cp \<le> length (cp_connections cp)"
      | "\<not> cp_chan_closed cp" "length (cp_connections cp) < cp_size cp" by linarith
    then show ?thesis
    proof cases
      case 1
      let ?t = "goto i (Crashed SendOnClosedChannel) ?s1"
      have "release_step i ?s1 ?t" using 1 assms(1) i release_step.send_closed [of ?s1 i n] by (simp add: represents_def at_def)
      from reachable_release [OF s1 reachable_release [OF this reachable.start]] have "reachable s ?t" .
      moreover have "r = Panic ''send on closed channel''" "represents ?t cp'" "at ?t i (Crashed SendOnClosedChannel)"
        using False 1 assms i by (auto simp: ReleaseConnection_def represents_def at_def)
      ultimately show ?thesis by blast
    next
      case 2
      have "reachable s ?s1" by (rule reachable_release [OF s1 reachable.start])
      moreover have "r = Blocked" "represents ?s1 cp'" "at ?s1 i (Releasing n)"
        using False 2 assms i by (auto simp: ReleaseConnection_def represents_def at_def)
      moreover have "\<not> release_step i ?s1 t" for t
        using 2 assms(1) i by (auto simp: represents_def at_def elim!: release_step.cases)
      ultimately show ?thesis by blast
    next
      case 3
      let ?s2 = "goto i Sent (?s1\<lparr>chan := chan ?s1 @ [n]\<rparr>)"
      have s2: "release_step i ?s1 ?s2" "release_step i ?s2 (wg_done i Idle ?s2)"
        using release_step.send [of ?s1 i n] release_step.uncount_release [of ?s2 i] 3 assms(1) i
        by (auto simp: represents_def at_def)
      have "reachable s (wg_done i Idle ?s2)"
        by (rule reachable_release [OF s1 reachable_release [OF s2(1) reachable_release [OF s2(2) reachable.start]]])
      moreover have "r = Ok ()" "represents (wg_done i Idle ?s2) cp'" "at (wg_done i Idle ?s2) i Idle"
        using False 3 assms i
        by (auto simp: ReleaseConnection_def represents_def at_def wg_done_def wg_Done_def wg_Add_def Let_def split: if_splits)
      ultimately show ?thesis by blast
    qed
  qed
qed

lemma drain_run:
  assumes "closer s = Draining"
  shows "\<exists>s'. reachable s s' \<and> closer s' = Finished \<and> chan s' = [] \<and> chan_cap s' = chan_cap s \<and>
    chan_closed s' = chan_closed s \<and> flag s' = flag s \<and> wg s' = wg s"
  using assms
proof (induction "chan s" arbitrary: s)
  case Nil
  let ?t = "s\<lparr>closer := Finished\<rparr>"
  have "close_step s ?t" using Nil close_step.drained [of s] by simp
  from reachable_close [OF this reachable.start] have "reachable s ?t" .
  with Nil show ?case by (intro exI [of _ ?t]) auto
next
  case (Cons c cs)
  let ?t = "s\<lparr>chan := cs, shut := insert c (shut s)\<rparr>"
  have "close_step s ?t" using Cons by (intro close_step.close_conn) auto
  moreover obtain s' where "reachable ?t s'" "closer s' = Finished" "chan s' = []" "chan_cap s' = chan_cap ?t"
    "chan_closed s' = chan_closed ?t" "flag s' = flag ?t" "wg s' = wg ?t"
    using Cons.hyps(1) [of ?t] Cons.prems by auto
  ultimately show ?case using reachable_close [of s ?t s'] by (intro exI [of _ s']) simp
qed

lemma Close_run:
  assumes "represents s cp" "closer s = NotClosing" "0 \<le> cp_wg cp"
    and "ConnectionPool_Close (cp, w) = (r, (cp', w'))"
  shows "(r = Ok () \<longrightarrow> (\<exists>s'. reachable s s' \<and> represents s' cp' \<and> closer s' = Finished)) \<and>
    (r = Blocked \<and> 0 < cp_wg cp \<longrightarrow>
      (\<exists>s'. reachable s s' \<and> represents s' cp' \<and> closer s' = Waiting \<and> (\<forall>t. \<not> close_step s' t)))"
proof -
  let ?s1 = "s\<lparr>closer := Waiting\<rparr>"
  have s1: "close_step s ?s1" using assms(2) by (rule close_step.call)
  have "\<exists>s'. reachable s s' \<and> represents s' cp' \<and> closer s' = Finished" if "r = Ok ()"
  proof -
    from that assms(3,4) have wg: "cp_wg cp = 0" by (auto simp: ConnectionPool_Close_def split: if_splits)
    let ?s2 = "?s1\<lparr>closer := Waited\<rparr>"
    let ?s3 = "?s2\<lparr>closer := Stored, flag := True\<rparr>"
    let ?s4 = "?s3\<lparr>closer := Draining, chan_closed := True\<rparr>"
    have st: "close_step ?s1 ?s2" "close_step ?s2 ?s3" "close_step ?s3 ?s4"
      using wg assms(1) close_step.wait [of ?s1] close_step.store [of ?s2] close_step.close_chan [of ?s3]
      by (auto simp: represents_def)
    have "reachable s ?s4"
      by (rule reachable_close [OF s1 reachable_close [OF st(1) reachable_close [OF st(2) reachable_close [OF st(3) reachable.start]]]])
    moreover obtain s' where "reachable ?s4 s'" "closer s' = Finished" "chan s' = []" "chan_cap s' = chan_cap ?s4"
      "chan_closed s' = chan_closed ?s4" "flag s' = flag ?s4" "wg s' = wg ?s4"
      using drain_run [of ?s4] by auto
    moreover from this that wg assms have "represents s' cp'"
      by (auto simp: ConnectionPool_Close_def represents_def Let_def split: if_splits prod.splits)
    ultimately show ?thesis using reachable_trans by blast
  qed
  moreover have "\<exists>s'. reachable s s' \<and> represents s' cp' \<and> closer s' = Waiting \<and> (\<forall>t. \<not> close_step s' t)" if "0 < cp_wg cp"
  proof -
    have "reachable s ?s1" by (rule reachable_close [OF s1 reachable.start])
    moreover have "represents ?s1 cp'" "\<not> close_step ?s1 t" for t
      using that assms(1,4) by (auto simp: ConnectionPool_Close_def represents_def elim!: close_step.cases)
    ultimately show ?thesis by (intro exI [of _ ?s1]) auto
  qed
  ultimately show ?thesis by blast
qed

text \<open>C20: The methods of the pool, called one at a time, are runs of their steps: what \<^verbatim>\<open>GetConnection\<close>,
  \<^verbatim>\<open>ReleaseConnection\<close> and \<^verbatim>\<open>Close\<close> return and leave in the pool is what an uninterrupted run of the goroutine's
  steps leads to, errors and panics included; and where a method blocks, the run stops at a step
  that the goroutine cannot take.\<close>

theorem pool_methods_are_runs_of_their_steps:
  assumes "represents s cp"
  shows "(0 \<le> cp_wg cp \<and> None \<notin> set (cp_connections cp) \<and> at s i Idle \<and>
        GetConnection (cp, w) = (r, (cp', w')) \<and> returns r \<longrightarrow>
      (\<exists>s' p. reachable s s' \<and> represents s' cp' \<and> at s' i p \<and> got r p)) \<and>
    (0 < cp_wg cp \<and> 0 < cp_size cp \<and> at s i (Holding (Some n)) \<and> ReleaseConnection conn (cp, w) = (q, (cp', w')) \<longrightarrow>
      (\<exists>s'. reachable s s' \<and> represents s' cp' \<and>
        (q = Ok () \<and> at s' i Idle \<or> q = Blocked \<and> at s' i (Releasing n) \<and> (\<forall>t. \<not> release_step i s' t) \<or>
         q = Panic ''send on closed channel'' \<and> at s' i (Crashed SendOnClosedChannel)))) \<and>
    (0 \<le> cp_wg cp \<and> closer s = NotClosing \<and> ConnectionPool_Close (cp, w) = (Ok (), (cp', w')) \<longrightarrow>
      (\<exists>s'. reachable s s' \<and> represents s' cp' \<and> closer s' = Finished)) \<and>
    (0 < cp_wg cp \<and> closer s = NotClosing \<and> ConnectionPool_Close (cp, w) = (Blocked, (cp', w')) \<longrightarrow>
      (\<exists>s'. reachable s s' \<and> represents s' cp' \<and> closer s' = Waiting \<and> (\<forall>t. \<not> close_step s' t)))"
  using GetConnection_run [OF assms, of i w r cp' w'] ReleaseConnection_run [OF assms, of i n conn w q cp' w']
    Close_run [OF assms, of w "Ok ()" cp' w'] Close_run [OF assms, of w Blocked cp' w']
  by auto

theorem pool_methods_are_runs_of_their_steps_witness:
  "\<exists>s' p. reachable (snapshot [0] 2 0 1 {} [Idle] NotClosing) s' \<and> at s' 0 p \<and> got (Ok (Some (example_client 64))) p"
proof -
  let ?cp = "example_pool [Some (example_client 64)] 2" and ?w = "example_world (example_conn [] [])"
  let ?s = "snapshot [0] 2 0 1 {} [Idle] NotClosing"
  obtain cp' where g: "GetConnection (?cp, ?w) = (Ok (Some (example_client 64)), (cp', ?w))"
    by (simp add: GetConnection_def bindR_def wg_Add_def Let_def)
  have "represents ?s ?cp" "at ?s 0 Idle" by (simp_all add: represents_def run_simps)
  with pool_methods_are_runs_of_their_steps [of ?s ?cp 0 ?w "Ok (Some (example_client 64))" cp' ?w] g show ?thesis by auto
qed

text \<open>Two goroutines that have a connection each.\<close>

lemma both_hold: "reachable (fresh_pool 2 2 2) (snapshot [] 2 2 2 {} [Holding (Some 0), Holding (Some 1)] NotClosing)"
proof -
  have "reachable (fresh_pool 2 2 2) (snapshot [0, 1] 2 0 2 {} [Idle, Idle] NotClosing)"
    using reachable.start [of "fresh_pool 2 2 2"] by (simp add: fresh_snapshot numeral_2_eq_2)
  from run_take [OF this, of 0] have "reachable (fresh_pool 2 2 2) (snapshot [1] 2 1 2 {} [Holding (Some 0), Idle] NotClosing)" by simp
  from run_take [OF this, of 1] show ?thesis by simp
qed

theorem connections_are_exclusive_witness:
  "\<exists>s. reachable (fresh_pool 2 2 2) s \<and> held (threads s ! 0) = [0] \<and> held (threads s ! 1) = [1] \<and>
     set (held (threads s ! 0)) \<inter> set (held (threads s ! 1)) = {} \<and> distinct (chan s)"
proof -
  let ?s = "snapshot [] 2 2 2 {} [Holding (Some 0), Holding (Some 1)] NotClosing"
  have "at ?s 0 (Holding (Some 0))" "at ?s 1 (Holding (Some 1))" "threads ?s = [Holding (Some 0), Holding (Some 1)]"
    by (simp_all add: run_simps)
  with connections_are_exclusive [OF both_hold, of 0 "Holding (Some 0)" 1 "Holding (Some 1)"] both_hold show ?thesis
    by (intro exI [of _ ?s]) simp
qed


theorem callers_within_the_capacity_never_wait_witness:
  "\<exists>s'. get_step 1 (snapshot [] 2 2 2 {} [Holding (Some 0), Holding (Some 1)] NotClosing) s' \<or>
     release_step 1 (snapshot [] 2 2 2 {} [Holding (Some 0), Holding (Some 1)] NotClosing) s'"
  using callers_within_the_capacity_never_wait [OF both_hold, of 1 "Holding (Some 1)"] by (simp add: run_simps)

end
