(* ===== verification/Stream_Events.thy ===== *)
theory Stream_Events
  imports Sharded_Client
begin

text \<open>
  Subscriptions over all shards (\<^verbatim>\<open>streamEvents\<close> and \<^verbatim>\<open>firstStreamError\<close> of \<^verbatim>\<open>sharded_client.go\<close>): one goroutine per
  shard runs the shard's subscription and passes its events to the caller's handler under a mutex; the
  first error ends the call. The goroutines, the one that closes the channel of errors and the caller
  itself interleave in every order; an atomic action of each is a step. Which results a shard's
  subscription can have is the parameter \<open>outcome\<close>; the four methods instantiate it with the subscriptions
  of \<open>Client\<close>.
\<close>

subsection \<open>States\<close>

text \<open>
  The goroutine of a shard: before it is started, in the subscription, with an event before and after
  locking the mutex, with the subscription's result, after the send on \<^verbatim>\<open>errs\<close>, after \<^verbatim>\<open>cancel()\<close>, and
  after \<^verbatim>\<open>wg.Done()\<close>. A send on a closed channel and a negative wait group counter panic.
\<close>

datatype 'e worker =
    NotStarted | Streaming | Locking 'e | Handling 'e | Returned "go_error option" | Reported | Cancelled | Ended
  | Panicked

datatype main_pc = Starting nat | Receiving | Received_error go_error | Done "go_error option"

datatype waiter = NotWaiting | WaitingForAll | ClosedErrs

record 'e fanout =
  workers :: "'e worker list"
  errs :: "go_error list"
  errs_closed :: bool
  waiting :: int
  handleMu :: "nat option"
  ctx_error :: "go_error option"
  stream_cancelled :: bool
  waiter :: waiter
  main_at :: main_pc
  reported :: "(nat \<times> go_error) list"
  events :: "(nat \<times> 'e) list"

definition worker_at :: "'e fanout \<Rightarrow> nat \<Rightarrow> 'e worker \<Rightarrow> bool" where
  "worker_at s i p \<longleftrightarrow> i < length (workers s) \<and> workers s ! i = p"

definition move :: "nat \<Rightarrow> 'e worker \<Rightarrow> 'e fanout \<Rightarrow> 'e fanout" where
  "move i p s = s\<lparr>workers := (workers s)[i := p]\<rparr>"

text \<open>The result of the call, from the context's error and what was received: nothing when \<^verbatim>\<open>errs\<close> is closed.\<close>

definition firstStreamError :: "go_error option \<Rightarrow> go_error option \<Rightarrow> go_error option" where
  "firstStreamError ctxErr received =
     (case received of
        Some err \<Rightarrow> (case ctxErr of Some e \<Rightarrow> Some e | None \<Rightarrow> Some err)
      | None \<Rightarrow> None)"

subsection \<open>Steps\<close>

inductive worker_step :: "(nat \<Rightarrow> go_error option \<Rightarrow> bool) \<Rightarrow> nat \<Rightarrow> 'e fanout \<Rightarrow> 'e fanout \<Rightarrow> bool" for outcome i where
  event: "worker_at s i Streaming \<Longrightarrow> worker_step outcome i s (move i (Locking e) s)"
| lock: "worker_at s i (Locking e) \<Longrightarrow> handleMu s = None \<Longrightarrow> worker_step outcome i s (move i (Handling e) (s\<lparr>handleMu := Some i\<rparr>))"
| handle: "worker_at s i (Handling e) \<Longrightarrow>
    worker_step outcome i s (move i Streaming (s\<lparr>handleMu := None, events := events s @ [(i, e)]\<rparr>))"
| stream_returns: "worker_at s i Streaming \<Longrightarrow> outcome i r \<Longrightarrow> worker_step outcome i s (move i (Returned r) s)"
| report: "worker_at s i (Returned (Some err)) \<Longrightarrow> \<not> errs_closed s \<Longrightarrow> length (errs s) < length (workers s) \<Longrightarrow>
    worker_step outcome i s (move i Reported (s\<lparr>errs := errs s @ [err], reported := reported s @ [(i, err)]\<rparr>))"
| report_closed: "worker_at s i (Returned (Some err)) \<Longrightarrow> errs_closed s \<Longrightarrow> worker_step outcome i s (move i Panicked s)"
| cancel: "worker_at s i Reported \<Longrightarrow> worker_step outcome i s (move i Cancelled (s\<lparr>stream_cancelled := True\<rparr>))"
| no_error: "worker_at s i (Returned None) \<Longrightarrow> worker_step outcome i s (move i Cancelled s)"
| wg_done: "worker_at s i Cancelled \<Longrightarrow> worker_step outcome i s 
    (if waiting s < 1 then move i Panicked s else move i Ended (s\<lparr>waiting := waiting s - 1\<rparr>))"

inductive main_step :: "'e fanout \<Rightarrow> 'e fanout \<Rightarrow> bool" where
  start_worker: "main_at s = Starting i \<Longrightarrow> i < length (workers s) \<Longrightarrow>
    main_step s (move i Streaming (s\<lparr>waiting := waiting s + 1, main_at := Starting (Suc i)\<rparr>))"
| start_waiter: "main_at s = Starting (length (workers s)) \<Longrightarrow> main_step s (s\<lparr>waiter := WaitingForAll, main_at := Receiving\<rparr>)"
| receive: "main_at s = Receiving \<Longrightarrow> errs s = err # es \<Longrightarrow> main_step s (s\<lparr>errs := es, main_at := Received_error err\<rparr>)"
| receive_closed: "main_at s = Receiving \<Longrightarrow> errs s = [] \<Longrightarrow> errs_closed s \<Longrightarrow>
    main_step s (s\<lparr>main_at := Done (firstStreamError (ctx_error s) None), stream_cancelled := True\<rparr>)"
| return_error: "main_at s = Received_error err \<Longrightarrow>
    main_step s (s\<lparr>main_at := Done (firstStreamError (ctx_error s) (Some err)), stream_cancelled := True\<rparr>)"

inductive waiter_step :: "'e fanout \<Rightarrow> 'e fanout \<Rightarrow> bool" where
  close_errs: "waiter s = WaitingForAll \<Longrightarrow> waiting s = 0 \<Longrightarrow> waiter_step s (s\<lparr>waiter := ClosedErrs, errs_closed := True\<rparr>)"

inductive fanout_step :: "(nat \<Rightarrow> go_error option \<Rightarrow> bool) \<Rightarrow> 'e fanout \<Rightarrow> 'e fanout \<Rightarrow> bool" for outcome where
  a_worker: "worker_step outcome i s s' \<Longrightarrow> fanout_step outcome s s'"
| main: "main_step s s' \<Longrightarrow> fanout_step outcome s s'"
| the_waiter: "waiter_step s s' \<Longrightarrow> fanout_step outcome s s'"
| ctx_done: "ctx_error s = None \<Longrightarrow> fanout_step outcome s (s\<lparr>ctx_error := Some e, stream_cancelled := True\<rparr>)"

definition streamEvents :: "nat \<Rightarrow> 'e fanout" where
  "streamEvents n = \<lparr>workers = replicate n NotStarted, errs = [], errs_closed = False, waiting = 0, handleMu = None,
     ctx_error = None, stream_cancelled = False, waiter = NotWaiting, main_at = Starting 0, reported = [], events = []\<rparr>"

inductive runs :: "(nat \<Rightarrow> go_error option \<Rightarrow> bool) \<Rightarrow> nat \<Rightarrow> 'e fanout \<Rightarrow> bool" for outcome n where
  call: "runs outcome n (streamEvents n)"
| step: "runs outcome n s \<Longrightarrow> fanout_step outcome s s' \<Longrightarrow> runs outcome n s'"

subsection \<open>Invariants\<close>

lemma move_simps [simp]:
  "errs (move i p s) = errs s" "errs_closed (move i p s) = errs_closed s" "waiting (move i p s) = waiting s"
  "handleMu (move i p s) = handleMu s" "ctx_error (move i p s) = ctx_error s"
  "stream_cancelled (move i p s) = stream_cancelled s" "waiter (move i p s) = waiter s" "main_at (move i p s) = main_at s"
  "reported (move i p s) = reported s" "events (move i p s) = events s" "workers (move i p s) = (workers s)[i := p]"
  by (simp_all add: move_def)

text \<open>
  The phases of the call: goroutines are started in order, \<^verbatim>\<open>errs\<close> is closed only after all of them
  have ended, and the wait group counts those that have not.
\<close>

fun active :: "'e worker \<Rightarrow> int" where
  "active NotStarted = 0"
| "active Ended = 0"
| "active p = 1"

definition phases :: "'e fanout \<Rightarrow> bool" where
  "phases s \<longleftrightarrow> waiting s = sum_list (map active (workers s)) \<and> Panicked \<notin> set (workers s) \<and>
     (case main_at s of
        Starting k \<Rightarrow> waiter s = NotWaiting \<and> k \<le> length (workers s) \<and> (\<forall>j < length (workers s). (workers s ! j = NotStarted) = (k \<le> j))
      | _ \<Rightarrow> waiter s \<noteq> NotWaiting) \<and>
     (waiter s \<noteq> NotWaiting \<longrightarrow> NotStarted \<notin> set (workers s)) \<and>
     (errs_closed s \<longleftrightarrow> waiter s = ClosedErrs) \<and> (errs_closed s \<longrightarrow> set (workers s) \<subseteq> {Ended})"

lemma not_closed: "phases s \<Longrightarrow> worker_at s i p \<Longrightarrow> p \<noteq> Ended \<Longrightarrow> \<not> errs_closed s"
  using nth_mem [of i "workers s"] by (auto simp: phases_def worker_at_def)

lemma active_nonneg: "0 \<le> active p"
  by (cases p) auto

lemma active_le_waiting: "phases s \<Longrightarrow> worker_at s i p \<Longrightarrow> active p \<le> waiting s"
  by (auto simp: phases_def worker_at_def active_nonneg intro!: member_le_sum_list)

lemma phases_move:
  assumes "phases s" "worker_at s i q" "q \<noteq> NotStarted" "q \<noteq> Ended" "p \<noteq> NotStarted" "p \<noteq> Panicked"
    and "main_at s' = main_at s" "waiter s' = waiter s" "errs_closed s' = errs_closed s"
    and "workers s' = (workers s)[i := p]" "waiting s' = waiting s + active p - active q"
  shows "phases s'"
proof -
  have i: "i < length (workers s)" "workers s ! i = q" using assms(2) by (auto simp: worker_at_def)
  have "waiting s' = sum_list (map active (workers s'))"
    using sum_list_map_update [OF i(1), of active p] i(2) assms(1,10,11) by (simp add: phases_def)
  moreover have "(workers s' ! j = NotStarted) = (workers s ! j = NotStarted)" if "j < length (workers s)" for j
    using that i assms(3,5,10) by (cases "j = i") auto
  moreover have "\<not> errs_closed s" using not_closed assms(1,2,4) by blast
  moreover have "set (workers s') \<subseteq> insert p (set (workers s))" unfolding assms(10) by (rule set_update_subset_insert)
  ultimately show ?thesis
    using assms(1,5-10) unfolding phases_def by (auto split: main_pc.splits)
qed

lemma worker_step_phases:
  assumes "phases s" and "worker_step outcome i s s'"
  shows "phases s'"
  using assms(2)
proof cases
  case (report_closed err)
  with not_closed [OF assms(1), of i] show ?thesis by auto
next
  case wg_done
  with active_le_waiting [OF assms(1), of i Cancelled] show ?thesis
    by (intro phases_move [OF assms(1), of i Cancelled Ended]) auto
next
  case (event e)
  then show ?thesis by (intro phases_move [OF assms(1), of i Streaming "Locking e"]) simp_all
next
  case (lock e)
  then show ?thesis by (intro phases_move [OF assms(1), of i "Locking e" "Handling e"]) simp_all
next
  case (handle e)
  then show ?thesis by (intro phases_move [OF assms(1), of i "Handling e" Streaming]) simp_all
next
  case (stream_returns r)
  then show ?thesis by (intro phases_move [OF assms(1), of i Streaming "Returned r"]) simp_all
next
  case (report err)
  then show ?thesis by (intro phases_move [OF assms(1), of i "Returned (Some err)" Reported]) simp_all
next
  case cancel
  then show ?thesis by (intro phases_move [OF assms(1), of i Reported Cancelled]) simp_all
next
  case no_error
  then show ?thesis by (intro phases_move [OF assms(1), of i "Returned None" Cancelled]) simp_all
qed

lemma main_step_phases:
  assumes "phases s" and "main_step s s'"
  shows "phases s'"
  using assms(2)
proof cases
  case (start_worker i)
  then have i: "workers s ! i = NotStarted" "\<forall>j < length (workers s). (workers s ! j = NotStarted) = (i \<le> j)"
    "waiter s = NotWaiting" "\<not> errs_closed s" "Panicked \<notin> set (workers s)" "waiting s = sum_list (map active (workers s))"
    using assms(1) by (auto simp: phases_def)
  have "waiting s' = sum_list (map active (workers s'))"
    using sum_list_map_update [OF start_worker(3), of active Streaming] i start_worker(1) by simp
  moreover have "set (workers s') \<subseteq> insert Streaming (set (workers s))"
    using start_worker(1) set_update_subset_insert [of "workers s" i Streaming] by simp
  moreover have "\<forall>j < length (workers s'). (workers s' ! j = NotStarted) = (Suc i \<le> j)"
    using i(2) start_worker by (auto simp: nth_list_update Suc_le_eq le_less)
  ultimately show ?thesis using i start_worker by (auto simp: phases_def)
next
  case start_waiter
  with assms(1) show ?thesis by (auto simp: phases_def in_set_conv_nth)
qed (use assms(1) in \<open>auto simp: phases_def\<close>)

lemma step_phases:
  assumes "phases s" and "fanout_step outcome s s'"
  shows "phases s'"
  using assms(2)
proof cases
  case the_waiter
  then show ?thesis
  proof cases
    case close_errs
    have "active p = 0" if "p \<in> set (workers s)" for p
      using that close_errs assms(1) sum_list_nonneg_eq_0_iff [of "map active (workers s)"] active_nonneg
      by (auto simp: phases_def)
    moreover have "NotStarted \<notin> set (workers s)" "Panicked \<notin> set (workers s)" using close_errs assms(1) by (auto simp: phases_def)
    ultimately have "p = Ended" if "p \<in> set (workers s)" for p using that by (cases p) fastforce+
    then have "set (workers s) \<subseteq> {Ended}" by blast
    with close_errs assms(1) show ?thesis by (auto simp: phases_def split: main_pc.splits)
  qed
next
  case (a_worker i)
  with assms(1) show ?thesis by (rule worker_step_phases)
next
  case main
  with assms(1) show ?thesis by (rule main_step_phases)
next
  case (ctx_done e)
  with assms(1) show ?thesis by (auto simp: phases_def split: main_pc.splits)
qed

lemma worker_at_move [simp]:
  "worker_at (move i p s) j q \<longleftrightarrow> (if j = i then i < length (workers s) \<and> q = p else worker_at s j q)"
  by (auto simp: worker_at_def)

lemma worker_at_simps [simp]:
  "worker_at (s\<lparr>errs := x1\<rparr>) i p = worker_at s i p" "worker_at (s\<lparr>handleMu := x2\<rparr>) i p = worker_at s i p"
  "worker_at (s\<lparr>events := x3\<rparr>) i p = worker_at s i p" "worker_at (s\<lparr>reported := x4\<rparr>) i p = worker_at s i p"
  "worker_at (s\<lparr>stream_cancelled := x5\<rparr>) i p = worker_at s i p" "worker_at (s\<lparr>waiting := x6\<rparr>) i p = worker_at s i p"
  "worker_at (s\<lparr>main_at := x7\<rparr>) i p = worker_at s i p" "worker_at (s\<lparr>waiter := x8\<rparr>) i p = worker_at s i p"
  "worker_at (s\<lparr>errs_closed := x9\<rparr>) i p = worker_at s i p" "worker_at (s\<lparr>ctx_error := x10\<rparr>) i p = worker_at s i p"
  by (simp_all add: worker_at_def)

lemma worker_at_length: "worker_at s i p \<Longrightarrow> i < length (workers s)"
  by (simp add: worker_at_def)

lemma worker_at_in_set: "worker_at s i p \<Longrightarrow> p \<in> set (workers s)"
  by (auto simp: worker_at_def)

lemma worker_at_unique: "worker_at s i p \<Longrightarrow> worker_at s i q \<Longrightarrow> p = q"
  by (simp add: worker_at_def)

text \<open>The mutex is held by the goroutine that runs the handler.\<close>

definition exclusive_handler :: "'e fanout \<Rightarrow> bool" where
  "exclusive_handler s \<longleftrightarrow> (\<forall>i. handleMu s = Some i \<longleftrightarrow> (\<exists>e. worker_at s i (Handling e)))"

lemma step_exclusive_handler:
  assumes "exclusive_handler s" "phases s" and "fanout_step outcome s s'"
  shows "exclusive_handler s'"
  using assms(3)
proof cases
  case (a_worker i)
  then show ?thesis
  proof cases
    case (handle e)
    then have "handleMu s = Some i" using assms(1) by (auto simp: exclusive_handler_def)
    with handle assms(1) show ?thesis by (auto simp: exclusive_handler_def)
  qed (use assms(1) in \<open>auto simp: exclusive_handler_def dest: worker_at_length worker_at_unique\<close>)
next
  case main
  then show ?thesis
  proof cases
    case (start_worker i)
    have "\<not> worker_at s i (Handling e)" for e
      using assms(2) start_worker by (auto simp: phases_def worker_at_def)
    with start_worker assms(1) show ?thesis by (auto simp: exclusive_handler_def)
  qed (use assms(1) in \<open>auto simp: exclusive_handler_def\<close>)
next
  case the_waiter
  then show ?thesis by cases (use assms(1) in \<open>auto simp: exclusive_handler_def\<close>)
qed (use assms(1) in \<open>auto simp: exclusive_handler_def\<close>)

text \<open>There is room in \<^verbatim>\<open>errs\<close> for every goroutine that has not reported yet.\<close>

fun pending :: "'e worker \<Rightarrow> nat" where
  "pending Reported = 0"
| "pending Cancelled = 0"
| "pending Ended = 0"
| "pending Panicked = 0"
| "pending p = 1"

definition room :: "'e fanout \<Rightarrow> bool" where
  "room s \<longleftrightarrow> length (errs s) + sum_list (map pending (workers s)) \<le> length (workers s)"

lemma room_move:
  assumes "room s" "worker_at s i q" and "workers s' = (workers s)[i := p]"
    and "length (errs s') + pending p \<le> length (errs s) + pending q"
  shows "room s'"
  using sum_list_map_update [of i "workers s" pending p] assms by (auto simp: room_def worker_at_def)

lemma worker_step_room:
  assumes "room s" and "worker_step outcome i s s'"
  shows "room s'"
  using assms(2)
proof cases
  case (event e)
  then show ?thesis by (intro room_move [OF assms(1), of i Streaming]) auto
next
  case (lock e)
  then show ?thesis by (intro room_move [OF assms(1), of i "Locking e"]) auto
next
  case (handle e)
  then show ?thesis by (intro room_move [OF assms(1), of i "Handling e"]) auto
next
  case (stream_returns r)
  then show ?thesis by (intro room_move [OF assms(1), of i Streaming]) auto
next
  case (report err)
  then show ?thesis by (intro room_move [OF assms(1), of i "Returned (Some err)"]) auto
next
  case (report_closed err)
  then show ?thesis by (intro room_move [OF assms(1), of i "Returned (Some err)"]) auto
next
  case cancel
  then show ?thesis by (intro room_move [OF assms(1), of i Reported]) auto
next
  case no_error
  then show ?thesis by (intro room_move [OF assms(1), of i "Returned None"]) auto
next
  case wg_done
  then show ?thesis by (cases "waiting s < 1") (auto intro: room_move [OF assms(1), of i Cancelled])
qed

lemma step_room:
  assumes "room s" "phases s" and "fanout_step outcome s s'"
  shows "room s'"
  using assms(3)
proof cases
  case (a_worker i)
  with assms(1) show ?thesis by (rule worker_step_room)
next
  case main
  then show ?thesis
  proof cases
    case (start_worker i)
    then have "worker_at s i NotStarted" using assms(2) by (auto simp: phases_def worker_at_def)
    with start_worker show ?thesis by (intro room_move [OF assms(1), of i NotStarted]) auto
  qed (use assms(1) in \<open>auto simp: room_def\<close>)
next
  case the_waiter
  then show ?thesis by cases (use assms(1) in \<open>auto simp: room_def\<close>)
qed (use assms(1) in \<open>auto simp: room_def\<close>)

lemma room_for: "room s \<Longrightarrow> worker_at s i p \<Longrightarrow> length (errs s) + pending p \<le> length (workers s)"
  unfolding room_def worker_at_def
  using member_le_sum_list [of "pending p" "map pending (workers s)"] nth_mem [of i "workers s"] by fastforce

text \<open>
  What has been reported: results of subscriptions, in order; the caller takes the first. A goroutine that
  is done has reported, or its subscription returned nil.
\<close>

definition history :: "(nat \<Rightarrow> go_error option \<Rightarrow> bool) \<Rightarrow> 'e fanout \<Rightarrow> bool" where
  "history outcome s \<longleftrightarrow>
     (\<forall>(i, e) \<in> set (reported s). outcome i (Some e)) \<and>
     (\<forall>i r. worker_at s i (Returned r) \<longrightarrow> outcome i r) \<and>
     (\<forall>i p. worker_at s i p \<and> p \<in> {Reported, Cancelled, Ended} \<longrightarrow> outcome i None \<or> (\<exists>e. (i, e) \<in> set (reported s))) \<and>
     (case main_at s of
        Received_error e \<Rightarrow> map snd (reported s) = e # errs s
      | Done r \<Rightarrow> stream_cancelled s \<and>
          (r = None \<and> reported s = [] \<and> errs_closed s \<or>
           (\<exists>e. map snd (reported s) = e # errs s \<and> (r = Some e \<or> r \<noteq> None \<and> r = ctx_error s)))
      | _ \<Rightarrow> map snd (reported s) = errs s)"

lemma worker_step_history:
  assumes "history outcome s" "phases s" and "worker_step outcome i s s'"
  shows "history outcome s'"
  using assms(3)
proof cases
  case (report err)
  then have "outcome i (Some err)" using assms(1) by (auto simp: history_def)
  with report assms(1) show ?thesis by (auto simp: history_def split: main_pc.splits)
next
  case no_error
  then have "outcome i None" using assms(1) by (auto simp: history_def)
  with no_error assms(1) show ?thesis by (auto simp: history_def split: main_pc.splits)
next
  case (report_closed err)
  with not_closed [OF assms(2), of i] show ?thesis by auto
next
  case wg_done
  with active_le_waiting [OF assms(2), of i Cancelled] assms(1) show ?thesis
    by (auto simp: history_def split: main_pc.splits)
qed (use assms(1) in \<open>auto simp: history_def split: main_pc.splits\<close>)

lemma step_history:
  assumes "history outcome s" "phases s" and "fanout_step outcome s s'"
  shows "history outcome s'"
  using assms(3)
proof cases
  case (a_worker i)
  with assms(1,2) show ?thesis by (rule worker_step_history)
next
  case main
  then show ?thesis
    by cases (use assms(1) in \<open>auto simp: history_def firstStreamError_def split: main_pc.splits option.splits\<close>)
next
  case the_waiter
  then show ?thesis by cases (use assms(1) in \<open>auto simp: history_def split: main_pc.splits\<close>)
next
  case (ctx_done e)
  with assms(1) show ?thesis by (auto simp: history_def split: main_pc.splits)
qed

lemma length_workers: "fanout_step outcome s s' \<Longrightarrow> length (workers s') = length (workers s)"
  by (elim fanout_step.cases worker_step.cases main_step.cases waiter_step.cases) auto

lemma runs_invariants:
  "runs outcome n s \<Longrightarrow> length (workers s) = n \<and> phases s \<and> exclusive_handler s \<and> room s \<and> history outcome s"
proof (induction rule: runs.induct)
  case call
  show ?case
    by (auto simp: streamEvents_def phases_def exclusive_handler_def room_def history_def worker_at_def
      sum_list_replicate)
next
  case (step s s')
  then show ?case
    using step_phases step_exclusive_handler step_room step_history length_workers by metis
qed

subsection \<open>The methods\<close>

text \<open>
  The results of a shard's subscription: what it returns under some context and on some network, from a
  state in which the shard's client is ready.
\<close>

definition shard_outcome ::
  "(ctx \<Rightarrow> 'h \<Rightarrow> client_state \<Rightarrow> (unit res \<times> 'h) \<times> client_state) \<Rightarrow> ShardedClient \<Rightarrow> nat \<Rightarrow> go_error option \<Rightarrow> bool"
where
  "shard_outcome sub c i r \<longleftrightarrow> i < length (shards c) \<and>
     (\<exists>ctx h bufs w. client_inv (shards c ! i, bufs, w) \<and>
        fst (fst (sub ctx h (shards c ! i, bufs, w))) = (case r of None \<Rightarrow> Ok () | Some e \<Rightarrow> Err e))"

text \<open>The states a call of \<^verbatim>\<open>Stream\<close>, \<^verbatim>\<open>PStream\<close>, \<^verbatim>\<open>QStream\<close> and \<^verbatim>\<open>QPStream\<close> can be in.\<close>

definition Sharded_Stream :: "(LimitEvent \<Rightarrow> 'h \<Rightarrow> go_error option \<times> 'h) \<Rightarrow> ShardedClient \<Rightarrow> LimitEvent fanout \<Rightarrow> bool" where
  "Sharded_Stream handle c = runs (shard_outcome (\<lambda>ctx. Client_Stream ctx handle) c) (length (shards c))"

definition Sharded_PStream ::
  "string \<Rightarrow> (LimitEvent \<Rightarrow> 'h \<Rightarrow> go_error option \<times> 'h) \<Rightarrow> ShardedClient \<Rightarrow> LimitEvent fanout \<Rightarrow> bool" where
  "Sharded_PStream prefix handle c = runs (shard_outcome (\<lambda>ctx. Client_PStream ctx prefix handle) c) (length (shards c))"

definition Sharded_QStream :: "(QuotaEvent \<Rightarrow> 'h \<Rightarrow> go_error option \<times> 'h) \<Rightarrow> ShardedClient \<Rightarrow> QuotaEvent fanout \<Rightarrow> bool" where
  "Sharded_QStream handle c = runs (shard_outcome (\<lambda>ctx. Client_QStream ctx handle) c) (length (shards c))"

definition Sharded_QPStream ::
  "string \<Rightarrow> (QuotaEvent \<Rightarrow> 'h \<Rightarrow> go_error option \<times> 'h) \<Rightarrow> ShardedClient \<Rightarrow> QuotaEvent fanout \<Rightarrow> bool" where
  "Sharded_QPStream prefix handle c = runs (shard_outcome (\<lambda>ctx. Client_QPStream ctx prefix handle) c) (length (shards c))"

text \<open>What the methods rely on in the subscriptions: they never return nil.\<close>

locale endless_subscription =
  fixes outcome :: "nat \<Rightarrow> go_error option \<Rightarrow> bool"
  assumes never_nil: "\<not> outcome i None"
begin

lemma ends_with_a_reported_error:
  assumes "runs outcome n s" "0 < n" "main_at s = Done r"
  shows "\<exists>i e rest. outcome i (Some e) \<and> reported s = (i, e) # rest \<and> (r = Some e \<or> r \<noteq> None \<and> r = ctx_error s) \<and> stream_cancelled s"
proof -
  have inv: "length (workers s) = n" "phases s" "history outcome s" using runs_invariants [OF assms(1)] by auto
  have "reported s \<noteq> []" if "errs_closed s"
  proof -
    from inv that have "set (workers s) \<subseteq> {Ended}" by (simp add: phases_def)
    moreover have "0 < length (workers s)" using inv(1) assms(2) by simp
    ultimately have "worker_at s 0 Ended" unfolding worker_at_def using nth_mem by blast
    with inv(3) never_nil show ?thesis by (fastforce simp: history_def)
  qed
  with inv(3) assms(3) obtain e where e: "map snd (reported s) = e # errs s" "r = Some e \<or> r \<noteq> None \<and> r = ctx_error s"
    "stream_cancelled s" by (auto simp: history_def)
  then obtain i rest where "reported s = (i, e) # rest" by (cases "reported s") auto
  with inv(3) e show ?thesis by (auto simp: history_def)
qed

end

lemma shard_outcome_never_nil:
  assumes "\<And>ctx h s. client_inv s \<Longrightarrow> \<exists>e. fst (fst (sub ctx h s)) = Err e"
  shows "endless_subscription (shard_outcome sub c)"
proof unfold_locales
  fix i
  have "fst (fst (sub ctx h s)) \<noteq> Ok ()" if "client_inv s" for ctx h s using assms [OF that, of ctx h] by auto
  then show "\<not> shard_outcome sub c i None" by (auto simp: shard_outcome_def)
qed

interpretation limits: endless_subscription "shard_outcome (\<lambda>ctx. Client_Stream ctx handle) c" for handle c
  by (rule shard_outcome_never_nil) (erule subscriptions_result [THEN conjunct1])

interpretation prefixed_limits: endless_subscription "shard_outcome (\<lambda>ctx. Client_PStream ctx prefix handle) c" for prefix handle c
  by (rule shard_outcome_never_nil) (erule subscriptions_result [THEN conjunct2, THEN conjunct2, THEN conjunct1])

interpretation quotas: endless_subscription "shard_outcome (\<lambda>ctx. Client_QStream ctx handle) c" for handle c
  by (rule shard_outcome_never_nil) (erule subscriptions_result [THEN conjunct2, THEN conjunct2, THEN conjunct2, THEN conjunct2, THEN conjunct1])

interpretation prefixed_quotas: endless_subscription "shard_outcome (\<lambda>ctx. Client_QPStream ctx prefix handle) c" for prefix handle c
  by (rule shard_outcome_never_nil) (erule subscriptions_result [THEN conjunct2, THEN conjunct2, THEN conjunct2, THEN conjunct2, THEN conjunct2, THEN conjunct2, THEN conjunct1])

subsection \<open>Properties\<close>


text \<open>C28: A sharded subscription, to limit or quota events, with or without a prefix, never returns nil: it returns
  the first error that any shard's subscription reported, or the error of the caller's context if that is
  done by then; the subscriptions of the other shards are cancelled.\<close>

theorem sharded_subscriptions_end_with_an_error:
  assumes "shards c \<noteq> []" and "main_at s = Done r"
    and "Sharded_Stream handle c s \<or> Sharded_PStream prefix handle c s"
    and "main_at t = Done q" "Sharded_QStream qhandle c t \<or> Sharded_QPStream prefix qhandle c t"
  shows "(\<exists>i e rest. i < length (shards c) \<and> reported s = (i, e) # rest \<and> (r = Some e \<or> r \<noteq> None \<and> r = ctx_error s)) \<and> stream_cancelled s \<and>
    (\<exists>i e rest. i < length (shards c) \<and> reported t = (i, e) # rest \<and> (q = Some e \<or> q \<noteq> None \<and> q = ctx_error t)) \<and> stream_cancelled t"
proof -
  have n: "0 < length (shards c)" using assms(1) by simp
  have "\<exists>i e rest. i < length (shards c) \<and> reported s = (i, e) # rest \<and> (r = Some e \<or> r \<noteq> None \<and> r = ctx_error s) \<and> stream_cancelled s"
    using assms(3) limits.ends_with_a_reported_error [OF _ n assms(2)] prefixed_limits.ends_with_a_reported_error [OF _ n assms(2)]
    unfolding Sharded_Stream_def Sharded_PStream_def shard_outcome_def by blast
  moreover have "\<exists>i e rest. i < length (shards c) \<and> reported t = (i, e) # rest \<and> (q = Some e \<or> q \<noteq> None \<and> q = ctx_error t) \<and> stream_cancelled t"
    using assms(5) quotas.ends_with_a_reported_error [OF _ n assms(4)] prefixed_quotas.ends_with_a_reported_error [OF _ n assms(4)]
    unfolding Sharded_QStream_def Sharded_QPStream_def shard_outcome_def by blast
  ultimately show ?thesis by blast
qed

text \<open>A call with two shards whose first subscription fails while the second one's event is being handled.\<close>

definition snap :: "'e worker list \<Rightarrow> go_error list \<Rightarrow> int \<Rightarrow> nat option \<Rightarrow> bool \<Rightarrow> waiter \<Rightarrow> main_pc \<Rightarrow> (nat \<times> go_error) list \<Rightarrow> 'e fanout" where
  "snap ws es n mu can wt m rep = \<lparr>workers = ws, errs = es, errs_closed = False, waiting = n, handleMu = mu,
     ctx_error = None, stream_cancelled = can, waiter = wt, main_at = m, reported = rep, events = []\<rparr>"

lemmas snap_simps = snap_def move_def worker_at_def firstStreamError_def

lemmas by_worker = runs.step [OF _ fanout_step.a_worker]
lemmas by_main = runs.step [OF _ fanout_step.main]

lemma fails_while_handling:
  fixes ev :: 'e
  assumes "outcome 0 (Some e)"
  shows "\<exists>s :: 'e fanout. runs outcome 2 s \<and> main_at s = Done (Some e) \<and> worker_at s 1 (Handling ev)"
proof -
  let ?runs = "runs outcome 2 :: 'e fanout \<Rightarrow> bool"
  have "?runs (snap [NotStarted, NotStarted] [] 0 None False NotWaiting (Starting 0) [])"
    using runs.call [of outcome 2] by (simp add: streamEvents_def snap_def numeral_2_eq_2)
  from by_main [OF this main_step.start_worker [of _ 0]]
  have "?runs (snap [Streaming, NotStarted] [] 1 None False NotWaiting (Starting 1) [])" by (simp add: snap_simps)
  from by_main [OF this main_step.start_worker [of _ 1]]
  have "?runs (snap [Streaming, Streaming] [] 2 None False NotWaiting (Starting 2) [])" by (simp add: snap_simps numeral_2_eq_2)
  from by_main [OF this main_step.start_waiter]
  have "?runs (snap [Streaming, Streaming] [] 2 None False WaitingForAll Receiving [])" by (simp add: snap_simps)
  from by_worker [OF this worker_step.event [where i = 1 and e = ev]]
  have "?runs (snap [Streaming, Locking ev] [] 2 None False WaitingForAll Receiving [])" by (simp add: snap_simps)
  from by_worker [OF this worker_step.lock [where i = 1 and e = ev]]
  have "?runs (snap [Streaming, Handling ev] [] 2 (Some 1) False WaitingForAll Receiving [])" by (simp add: snap_simps)
  from by_worker [OF this worker_step.stream_returns [where i = 0 and r = "Some e"]] assms
  have "?runs (snap [Returned (Some e), Handling ev] [] 2 (Some 1) False WaitingForAll Receiving [])" by (simp add: snap_simps)
  from by_worker [OF this worker_step.report [where i = 0 and err = e]]
  have "?runs (snap [Reported, Handling ev] [e] 2 (Some 1) False WaitingForAll Receiving [(0, e)])" by (simp add: snap_simps)
  from by_main [OF this main_step.receive [of _ e "[]"]]
  have "?runs (snap [Reported, Handling ev] [] 2 (Some 1) False WaitingForAll (Received_error e) [(0, e)])" by (simp add: snap_simps)
  from by_main [OF this main_step.return_error [of _ e]]
  have "?runs (snap [Reported, Handling ev] [] 2 (Some 1) True WaitingForAll (Done (Some e)) [(0, e)])" by (simp add: snap_simps)
  moreover have "main_at (snap [Reported, Handling ev] [] 2 (Some 1) True WaitingForAll (Done (Some e)) [(0, e)]) = Done (Some e)"
    "worker_at (snap [Reported, Handling ev] [] 2 (Some 1) True WaitingForAll (Done (Some e)) [(0, e)]) 1 (Handling ev)"
    by (simp_all add: snap_simps)
  ultimately show ?thesis by blast
qed

lemma example_outcome:
  assumes "\<And>s. client_inv s \<Longrightarrow> \<exists>e. fst (fst (sub ctx_Background h s)) = Err e"
  shows "\<exists>e. shard_outcome sub example_sharded 0 (Some e)"
proof -
  have inv: "client_inv (shards example_sharded ! 0, [], example_world (example_conn [] []))"
    using example_client_inv [of 0] by (simp add: example_sharded_def)
  from assms [OF this] obtain e where
    "fst (fst (sub ctx_Background h (shards example_sharded ! 0, [], example_world (example_conn [] [])))) = Err e" by blast
  with inv show ?thesis
    unfolding shard_outcome_def by (intro exI [of _ e] conjI exI [of _ ctx_Background]) (auto simp: example_sharded_def)
qed

text \<open>C37: A sharded subscription does not wait for its goroutines before it returns: after it has returned the
  first error, the caller's handler can still be running, in the goroutine of another shard.\<close>

theorem handler_can_run_after_the_return:
  fixes handle :: "LimitEvent \<Rightarrow> 'h \<Rightarrow> go_error option \<times> 'h"
  shows "\<exists>s e. Sharded_Stream handle example_sharded s \<and> main_at s = Done (Some e) \<and> worker_at s 1 (Handling ev)"
proof -
  have "\<exists>e. shard_outcome (\<lambda>ctx. Client_Stream ctx handle) example_sharded 0 (Some e)"
    by (rule example_outcome) (erule subscriptions_result [THEN conjunct1])
  then obtain e where "shard_outcome (\<lambda>ctx. Client_Stream ctx handle) example_sharded 0 (Some e)" ..
  from fails_while_handling [of "shard_outcome (\<lambda>ctx. Client_Stream ctx handle) example_sharded" e, OF this, of ev] show ?thesis
    unfolding Sharded_Stream_def by (auto simp: example_sharded_def numeral_2_eq_2)
qed


theorem sharded_subscriptions_end_with_an_error_witness:
  "\<exists>s i e rest. Sharded_Stream (\<lambda>ev n. (None, Suc n)) example_sharded s \<and> reported s = (i, e) # rest \<and> stream_cancelled s"
proof -
  let ?handle = "\<lambda>ev n. (None :: go_error option, Suc n)" and ?c = example_sharded
  have "\<exists>e. shard_outcome (\<lambda>ctx. Client_Stream ctx ?handle) ?c 0 (Some e)"
    by (rule example_outcome) (erule subscriptions_result [THEN conjunct1])
  then obtain e where e: "shard_outcome (\<lambda>ctx. Client_Stream ctx ?handle) ?c 0 (Some e)" ..
  have "\<exists>q. shard_outcome (\<lambda>ctx. Client_QStream ctx ?handle) ?c 0 (Some q)"
    by (rule example_outcome)
      (erule subscriptions_result [THEN conjunct2, THEN conjunct2, THEN conjunct2, THEN conjunct2, THEN conjunct1])
  then obtain q where q: "shard_outcome (\<lambda>ctx. Client_QStream ctx ?handle) ?c 0 (Some q)" ..
  have two: "length (shards ?c) = 2" by (simp add: example_sharded_def)
  obtain s where s: "Sharded_Stream ?handle ?c s" "main_at s = Done (Some e)"
    using fails_while_handling [of "shard_outcome (\<lambda>ctx. Client_Stream ctx ?handle) ?c" e, OF e, of "undefined :: LimitEvent"] unfolding Sharded_Stream_def two by blast
  obtain t where t: "Sharded_QStream ?handle ?c t" "main_at t = Done (Some q)"
    using fails_while_handling [of "shard_outcome (\<lambda>ctx. Client_QStream ctx ?handle) ?c" q, OF q, of "undefined :: QuotaEvent"] unfolding Sharded_QStream_def two by blast
  have "shards ?c \<noteq> []" by (simp add: example_sharded_def)
  from sharded_subscriptions_end_with_an_error [OF this s(2) disjI1 [OF s(1)] t(2) disjI1 [OF t(1)]] s(1) show ?thesis by blast
qed

end
