(* ===== verification/Spec2Isabelle.thy ===== *)
theory Spec2Isabelle
  imports Sharded_Batches Shard_Lifecycle Pool_Concurrency Stream_Events
begin

text \<open>
  The Go client of the FQ rate limiting and quota server, verified.

  \<^bold>\<open>The program.\<close> A call of the client writes a command into a recycled buffer, takes a connection from
  the pool, sends the command as a length-prefixed frame, reads the frame of the response and
  interprets it; a lost connection is dialed again. A sharded client spreads keys over several clients.

  \<^bold>\<open>The theories\<close>, in the order in which they build on each other:

  \<^item> \<open>Fq_Prelude\<close>, \<open>Go_Strings\<close>, \<open>Go_Errors\<close>, \<open>Go_IO\<close>: the Go the program is written in. Bytes and
    strings are \<^typ>\<open>string\<close>, fixed-width integers are words, \<^verbatim>\<open>int\<close> is \<^typ>\<open>int\<close>. \<^verbatim>\<open>ParseUint\<close> is the
    digit loop of \<^verbatim>\<open>strconv\<close> with its overflow tests, proved equal to the value of a numeral. Errors are
    a datatype on which \<^verbatim>\<open>errors.Is\<close> and \<^verbatim>\<open>errors.As\<close> walk. Code with effects is a function from a
    state to a result and a state; a result is a value, an error, a panic or waiting forever.
  \<^item> \<open>Response\<close> (\<^verbatim>\<open>response.go\<close>): the nine parsers, the protocol error and its codes. Round trips of what
    the server writes, the classification of every byte string, and the equivalence of the index loop
    with splitting at the delimiter.
  \<^item> \<open>Commands\<close> (the writers of \<^verbatim>\<open>client.go\<close> and \<^verbatim>\<open>inspect.go\<close>): requests are read back as what was asked.
  \<^item> \<open>Options\<close> (\<^verbatim>\<open>options.go\<close>): tokens and TLS. Reading files and loading certificates are parameters.
  \<^item> \<open>Buffer_Pools\<close> (\<^verbatim>\<open>bytes_pool.go\<close>, \<^verbatim>\<open>bytes_buffer_pool.go\<close>): recycled buffers and that they are clean.
  \<^item> \<open>Network\<close>: what the program relies on of \<^verbatim>\<open>net.Conn\<close> and \<^verbatim>\<open>context.Context\<close>. A connection is a script
    of arrivals with their times, of the outcomes of writes and of failures; theorems quantify over
    all scripts.
  \<^item> \<open>Frames\<close>, \<open>Tcp_Client\<close> (\<^verbatim>\<open>tcp_client.go\<close>): frames, requests, chunked responses, subscriptions, the
    handshake and reconnecting.
  \<^item> \<open>Conn_Pool\<close> (\<^verbatim>\<open>conn_pool.go\<close>), \<open>Client\<close> (\<^verbatim>\<open>client.go\<close>), \<open>Inspect\<close> (\<^verbatim>\<open>inspect.go\<close>), \<open>Sharded_Client\<close>
    (\<^verbatim>\<open>sharded_client.go\<close>): the pool, every operation of the client, server reports, and shards.
  \<^item> \<open>End_to_End\<close>: the composition of all layers. On a connection that works, each operation sends exactly its
    request and returns exactly what the server answered, value or error; when the connection is lost, a
    dial that finds the server again is enough.
  \<^item> \<open>Sharded_Batches\<close>: the operations of the sharded client that combine the answers of several shards, the
    deletion of many keys and the scans.
  \<^item> \<open>Shard_Lifecycle\<close>: opening and closing a sharded client, and what is left open when opening fails.
  \<^item> \<open>Pool_Concurrency\<close> (\<^verbatim>\<open>conn_pool.go\<close>): the pool under concurrency. Every atomic action of its methods is a
    step of a goroutine, and all interleavings are considered. Exclusive use of connections, the meaning of
    the wait group, when callers wait, and what can happen when a pool in use is closed. The
    sequential methods of \<open>Conn_Pool\<close> are shown to be uninterrupted runs of these steps.
  \<^item> \<open>Stream_Events\<close> (\<^verbatim>\<open>streamEvents\<close> of \<^verbatim>\<open>sharded_client.go\<close>): a subscription over all shards, with one
    goroutine per shard, as interleaved steps.

  \<^bold>\<open>Interfaces.\<close> The locale \<open>response_parser\<close> is the contract of the parsers, \<open>recycling_pool\<close> that of the
  buffer pools, \<open>connection_source\<close> what the pool needs of the function that dials, \<open>request_sender\<close> what
  the operations need of sending with reconnecting, \<open>shard_operation\<close> what the sharded client needs
  of an operation of one shard, \<open>shard_scanner\<close> what a sharded scan needs of the scan of a shard, and
  \<open>endless_subscription\<close> what a sharded subscription needs of the subscription of a shard. Each is interpreted
  on the definitions of the program.

  \<^bold>\<open>Loops.\<close> The loops over the network end because every step consumes a part of a finite script; no
  fuel is used. Scripts are finite, so a subscription ends when the script of the network does.

  \<^bold>\<open>Sequential and concurrent.\<close> The operations of a client are modelled as one goroutine runs them, with other
  goroutines at rest; what goroutines share are the connection pool, whose interleavings are
  modelled, and the pools of buffers, which are \<^verbatim>\<open>sync.Pool\<close>s. A connection belongs to one goroutine at a time,
  which is what \<open>Pool_Concurrency\<close> shows. In \<open>Stream_Events\<close> the results that the subscription
  of a shard can have are those of the model of the client, in whatever state and on whatever network it runs.

  \<^bold>\<open>Not modelled.\<close> What the sources call but do not contain is a parameter or a script: the network and the
  TLS handshake, reading files and certificates, the JSON decoder, the handlers and sharding functions of
  the caller. Not modelled are the scheduling of the Go runtime below the level of atomic
  actions and its memory model, the texts that \<^verbatim>\<open>fmt\<close> makes of errors beyond their structure, and the tests,
  examples and prose of the repository.
\<close>

end
